theory Spec2Isabelle
  imports Complex_Main "HOL-Library.Char_ord" "HOL-Library.List_Lexorder"
    "HOL-Library.Product_Lexorder" "HOL-Library.Option_ord"
begin

section \<open>Python strings\<close>

text \<open>
  A Python \<open>str\<close> is modelled as a \<open>string\<close> whose characters are the code points
  below 256 (ASCII and Latin-1).  The predicates below are Python's own on that range.
\<close>

definition isspace :: "char \<Rightarrow> bool" where
  \<comment> \<open>\<open>str.isspace\<close> on one character: TAB..CR, FS..US, SPACE, NEL, NBSP\<close>
  "isspace c = (let n = (of_char c :: nat) in
     (9 \<le> n \<and> n \<le> 13) \<or> (28 \<le> n \<and> n \<le> 32) \<or> n = 133 \<or> n = 160)"

fun split_from :: "string \<Rightarrow> string \<Rightarrow> string list" where
  \<comment> \<open>the word being read (reversed), the rest of the input\<close>
  "split_from w [] = (if w = [] then [] else [rev w])"
| "split_from w (c # cs) =
     (if isspace c then (if w = [] then split_from [] cs else rev w # split_from [] cs)
      else split_from (c # w) cs)"

definition py_split :: "string \<Rightarrow> string list" where
  \<comment> \<open>\<open>s.split()\<close>: the maximal runs of characters that are not whitespace\<close>
  "py_split s = split_from [] s"

definition strip :: "string \<Rightarrow> string" where
  "strip s = rev (dropWhile isspace (rev (dropWhile isspace s)))"

definition startswith :: "string \<Rightarrow> string \<Rightarrow> bool" where
  "startswith s p = (take (length p) s = p)"

definition endswith :: "string \<Rightarrow> string \<Rightarrow> bool" where
  "endswith s p = (length p \<le> length s \<and> drop (length s - length p) s = p)"

definition lower_char :: "char \<Rightarrow> char" where
  \<comment> \<open>\<open>str.lower\<close> on one character: A..Z and the Latin-1 capitals (all but the
     multiplication sign) move up by 32\<close>
  "lower_char c = (let n = (of_char c :: nat) in
     if (65 \<le> n \<and> n \<le> 90) \<or> (192 \<le> n \<and> n \<le> 222 \<and> n \<noteq> 215)
     then char_of (n + 32) else c)"

definition lower :: "string \<Rightarrow> string" where
  "lower s = map lower_char s"

definition is_numeric_char :: "char \<Rightarrow> bool" where
  \<comment> \<open>the characters with a Unicode numeric value: the digits 0..9, superscript two,
     three and one, and the fractions one quarter, one half, three quarters\<close>
  "is_numeric_char c = (let n = (of_char c :: nat) in
     (48 \<le> n \<and> n \<le> 57) \<or> n = 178 \<or> n = 179 \<or> n = 185 \<or> (188 \<le> n \<and> n \<le> 190))"

definition isnumeric :: "string \<Rightarrow> bool" where
  \<comment> \<open>\<open>str.isnumeric\<close>: at least one character, all of them numeric\<close>
  "isnumeric s = (s \<noteq> [] \<and> list_all is_numeric_char s)"

definition is_decimal_char :: "char \<Rightarrow> bool" where
  "is_decimal_char c = (let n = (of_char c :: nat) in 48 \<le> n \<and> n \<le> 57)"

definition digits_value :: "string \<Rightarrow> int" where
  "digits_value s = foldl (\<lambda>acc c. 10 * acc + (int (of_char c) - 48)) 0 s"

section \<open>Exceptions\<close>

text \<open>
  The module \<open>exceptions.py\<close> is not among the sources.  A \<open>ProtonAPIError\<close> is
  modelled by the attributes the session reads from it: \<open>http_code\<close>, \<open>body_code\<close>
  and \<open>http_headers\<close> in the request and refresh handlers, and \<open>code\<close> in
  \<open>async_logout\<close>.  The three derived errors are built by \<open>from_proton_api_error\<close>
  and keep the error they are built from.
\<close>

record api_error =
  http_code :: int
  body_code :: int
  http_headers :: "(string \<times> string) list"
  code :: int

datatype runtime_error =
    Same_name_twice
  | Multiple_force string
  | No_acceptable_implementation string
  | No_transport

datatype exn =
    RuntimeError runtime_error
  | NameError
  | AttributeError
  | KeyError string
  | ValueError
  | AssertionError
  | OverflowError
  | ProtonCryptoError string
  | ProtonAPIError api_error
  | ProtonAPIAuthenticationNeeded api_error
  | ProtonAPI2FANeeded api_error
  | ProtonAPIMissingScopeError api_error
  | OtherError string

section \<open>The loader of pluggable components (loader.py)\<close>

datatype 'p validate_hook = Validate_plain bool | Validate_params "'p option \<Rightarrow> bool"

text \<open>
  A class that an entry point loads: its qualified name, what \<open>_get_priority()\<close> returns
  and its \<open>_validate\<close> class method (\<open>None\<close> when the class has none; the hook either
  takes no argument or takes \<open>validate_params\<close>).
\<close>

record 'p plugin_class =
  qualname :: string
  get_priority :: "int option"
  validate :: "'p validate_hook option"

record 'p PluggableComponent =
  priority :: "int option"
  class_name :: string
  cls :: "'p plugin_class"

text \<open>An entry point of the package metadata: \<open>load()\<close> returns a class or raises.\<close>

record 'p entry_point =
  ep_name :: string
  ep_load :: "exn + 'p plugin_class"

text \<open>
  The loader's state.  A Python dictionary keeps its keys in insertion order, so the
  implementations of one type are an association list.  \<open>warned\<close> collects the warnings
  issued for entry points that could not be loaded.
\<close>

record 'p Loader =
  known_types :: "string \<rightharpoonup> (string \<times> 'p plugin_class) list"
  name_resolution_cache :: "'p plugin_class \<rightharpoonup> string \<times> string"
  warned :: "(string \<times> string) list"

definition loader_prefix :: string where
  "loader_prefix = ''proton_loader_''"

definition Loader_init :: "'p Loader" where
  "Loader_init = \<lparr>known_types = Map.empty, name_resolution_cache = Map.empty, warned = []\<rparr>"

definition get_metadata_group_for_typename :: "string \<Rightarrow> string" where
  "get_metadata_group_for_typename t = loader_prefix @ t"

definition proton_entry_point_groups ::
  "(string \<rightharpoonup> 'p entry_point list) \<Rightarrow> (string \<rightharpoonup> 'p entry_point list)" where
  "proton_entry_point_groups metadata =
     (\<lambda>g. if startswith g loader_prefix then metadata g else None)"

fun load_entry_points ::
  "string \<Rightarrow> 'p entry_point list \<Rightarrow> 'p Loader \<Rightarrow> (exn + unit) \<times> 'p Loader" where
  "load_entry_points t [] L = (Inr (), L)"
| "load_entry_points t (ep # eps) L =
     (let known = (case known_types L t of None \<Rightarrow> [] | Some d \<Rightarrow> d) in
      if ep_name ep \<in> set (map fst known)
      then (Inl (RuntimeError Same_name_twice), L\<lparr>known_types := (known_types L)(t := None)\<rparr>)
      else (case ep_load ep of
              Inl e \<Rightarrow>
                (case e of
                   AttributeError \<Rightarrow>
                     load_entry_points t eps (L\<lparr>warned := warned L @ [(t, ep_name ep)]\<rparr>)
                 | _ \<Rightarrow> (Inl e, L))
            | Inr c \<Rightarrow>
                load_entry_points t eps
                  (L\<lparr>known_types := (known_types L)(t \<mapsto> known @ [(ep_name ep, c)]),
                     name_resolution_cache := (name_resolution_cache L)(c \<mapsto> (t, ep_name ep))\<rparr>)))"

definition discover ::
  "(string \<rightharpoonup> 'p entry_point list) \<Rightarrow> 'p Loader \<Rightarrow> string \<Rightarrow> (exn + unit) \<times> 'p Loader" where
  \<comment> \<open>the block under the lock: only a type that is not known yet is loaded\<close>
  "discover metadata L t =
     (if known_types L t \<noteq> None then (Inr (), L)
      else load_entry_points t
             (case proton_entry_point_groups metadata (get_metadata_group_for_typename t) of
                None \<Rightarrow> [] | Some eps \<Rightarrow> eps)
             (L\<lparr>known_types := (known_types L)(t \<mapsto> [])\<rparr>))"

definition read_overrides :: "(string \<rightharpoonup> string) \<Rightarrow> string \<Rightarrow> string list" where
  \<comment> \<open>the tokens of \<open>PROTON_LOADER_OVERRIDES\<close> for one type, \<open>type_name=\<close> cut off\<close>
  "read_overrides environ t =
     (let overrides = (case environ ''PROTON_LOADER_OVERRIDES'' of None \<Rightarrow> '''' | Some v \<Rightarrow> v);
          overrides = map strip (py_split overrides)
      in map (drop (length t + 1)) (filter (\<lambda>x. startswith x (t @ ''='')) overrides))"

definition force_class :: "string list \<Rightarrow> string list" where
  \<comment> \<open>the set of forced names, as a list without repetition\<close>
  "force_class overrides = remdups (filter (\<lambda>x. \<not> startswith x ''-'') overrides)"

text \<open>
  The local variable \<open>acceptable_entry_points\<close> is assigned in two of the three branches
  that go on: when exactly one name is forced and that name is not known, it stays
  unbound (\<open>None\<close> here).
\<close>

definition acceptable_entry_points ::
  "string \<Rightarrow> string list \<Rightarrow> (string \<times> 'p plugin_class) list \<Rightarrow> exn + string list option" where
  "acceptable_entry_points t overrides known =
     (let forced = force_class overrides in
      if length forced = 1
      then (if hd forced \<in> set (map fst known) then Inr (Some [hd forced]) else Inr None)
      else if length forced > 1 then Inl (RuntimeError (Multiple_force t))
      else Inr (Some (filter (\<lambda>k. (''-'' @ k) \<notin> set overrides) (map fst known))))"

text \<open>
  The two comprehensions over the known implementations read the variable once per
  element: an unbound variable raises at the first element, and not at all when there
  is none.
\<close>

definition acceptable_classes ::
  "string list option \<Rightarrow> (string \<times> 'p plugin_class) list
     \<Rightarrow> exn + (int option \<times> string \<times> 'p plugin_class) list" where
  "acceptable_classes acceptable known =
     (case acceptable of
        None \<Rightarrow> (if known = [] then Inr [] else Inl NameError)
      | Some a \<Rightarrow>
          Inr (map (\<lambda>(k, v). (get_priority v, k, v)) (filter (\<lambda>(k, v). k \<in> set a) known)
               @ map (\<lambda>(k, v). (None, k, v)) (filter (\<lambda>(k, v). k \<notin> set a) known)))"

definition component :: "int option \<times> string \<times> 'p plugin_class \<Rightarrow> 'p PluggableComponent" where
  "component x = (case x of (p, n, v) \<Rightarrow> \<lparr>priority = p, class_name = n, cls = v\<rparr>)"

definition sort_reverse :: "'p PluggableComponent list \<Rightarrow> 'p PluggableComponent list" where
  \<comment> \<open>\<open>list.sort(reverse=True)\<close>: reverse, sort stably, reverse.  The tuples are
     compared by priority, then by name; names differ, so the class is never compared.\<close>
  "sort_reverse xs = rev (sort_key (\<lambda>e. (priority e, class_name e)) (rev xs))"

definition order_components ::
  "string \<Rightarrow> string list \<Rightarrow> (string \<times> 'p plugin_class) list
     \<Rightarrow> exn + 'p PluggableComponent list" where
  "order_components t overrides known =
     (case acceptable_entry_points t overrides known of
        Inl e \<Rightarrow> Inl e
      | Inr acceptable \<Rightarrow>
          (case acceptable_classes acceptable known of
             Inl e \<Rightarrow> Inl e
           | Inr classes \<Rightarrow>
               (let with_prio = map component (filter (\<lambda>(p, n, v). p \<noteq> None) classes);
                    without_prio = map component (filter (\<lambda>(p, n, v). p = None) classes)
                in Inr (sort_reverse with_prio @ without_prio))))"

definition get_all ::
  "(string \<rightharpoonup> 'p entry_point list) \<Rightarrow> (string \<rightharpoonup> string) \<Rightarrow> 'p Loader \<Rightarrow> string
     \<Rightarrow> (exn + 'p PluggableComponent list) \<times> 'p Loader" where
  "get_all metadata environ L t =
     (case discover metadata L t of
        (Inl e, L') \<Rightarrow> (Inl e, L')
      | (Inr _, L') \<Rightarrow>
          (case known_types L' t of
             None \<Rightarrow> (Inl (KeyError t), L')
           | Some known \<Rightarrow> (order_components t (read_overrides environ t) known, L')))"

fun get_loop ::
  "string option \<Rightarrow> 'p option \<Rightarrow> 'p PluggableComponent list \<Rightarrow> 'p plugin_class option" where
  "get_loop cn vp [] = None"
| "get_loop cn vp (entry # rest) =
     (case cn of
        Some n \<Rightarrow> (if class_name entry = n then Some (cls entry) else get_loop cn vp rest)
      | None \<Rightarrow>
          (if priority entry = None then get_loop cn vp rest
           else (case validate (cls entry) of
                   None \<Rightarrow> Some (cls entry)
                 | Some (Validate_params f) \<Rightarrow>
                     (if f vp then Some (cls entry) else get_loop cn vp rest)
                 | Some (Validate_plain b) \<Rightarrow>
                     (if b then Some (cls entry) else get_loop cn vp rest))))"

definition get ::
  "(string \<rightharpoonup> 'p entry_point list) \<Rightarrow> (string \<rightharpoonup> string) \<Rightarrow> 'p Loader \<Rightarrow> string
     \<Rightarrow> string option \<Rightarrow> 'p option \<Rightarrow> (exn + 'p plugin_class) \<times> 'p Loader" where
  "get metadata environ L t cn vp =
     (case get_all metadata environ L t of
        (Inl e, L') \<Rightarrow> (Inl e, L')
      | (Inr acceptable, L') \<Rightarrow>
          (case get_loop cn vp acceptable of
             Some c \<Rightarrow> (Inr c, L')
           | None \<Rightarrow> (Inl (RuntimeError (No_acceptable_implementation t)), L')))"

definition get_name :: "'p Loader \<Rightarrow> 'p plugin_class \<Rightarrow> (string \<times> string) option" where
  "get_name L c = name_resolution_cache L c"

definition reset :: "'p Loader \<Rightarrow> 'p Loader" where
  "reset L = L\<lparr>known_types := Map.empty, name_resolution_cache := Map.empty\<rparr>"

definition set_all ::
  "'p Loader \<Rightarrow> string \<Rightarrow> (string \<times> 'p plugin_class) list \<Rightarrow> 'p Loader" where
  "set_all L t implementations =
     L\<lparr>known_types := (known_types L)(t \<mapsto> implementations),
       name_resolution_cache :=
         foldl (\<lambda>m (n, c). m(c \<mapsto> (t, n))) (name_resolution_cache L) implementations\<rparr>"

text \<open>The keys of a dictionary are distinct: the invariant of the loader's state.\<close>

definition loader_inv :: "'p Loader \<Rightarrow> bool" where
  "loader_inv L = (\<forall>t known. known_types L t = Some known \<longrightarrow> distinct (map fst known))"

section \<open>The session (session/api.py)\<close>

subsection \<open>Data\<close>

text \<open>
  The parsed JSON reply of the API: one optional field per key that the session reads,
  \<open>None\<close> when the reply has no such key (reading it with \<open>reply[key]\<close> then raises
  \<open>KeyError\<close>).  Values have the types of the API: strings, integers, and a list of
  strings for the scopes; the second-factor description is kept as an opaque string.
\<close>

record api_data =
  d_Code :: "int option"
  d_Modulus :: "string option"
  d_ServerEphemeral :: "string option"
  d_Salt :: "string option"
  d_Version :: "int option"
  d_SRPSession :: "string option"
  d_ServerProof :: "string option"
  d_UID :: "string option"
  d_AccessToken :: "string option"
  d_RefreshToken :: "string option"
  d_Scopes :: "string list option"
  d_2FA :: "string option"

text \<open>
  What the transport does with one request: it returns the parsed reply, raises a
  \<open>ProtonAPIError\<close>, or raises something else (the API cannot be reached, say).
\<close>

datatype transport_result = Reply api_data | Fails api_error | Breaks string

record Environment =
  env_class :: string

text \<open>
  The snapshot of \<open>__getstate__\<close>: a dictionary with at most six keys.  The outer
  \<open>option\<close> says whether the key is there, the inner one is the value, which may be
  Python's \<open>None\<close>.
\<close>

record snapshot =
  s_UID :: "string option option"
  s_AccessToken :: "string option option"
  s_RefreshToken :: "string option option"
  s_Scopes :: "string list option option"
  s_Environment :: "string option option"
  s_AccountName :: "string option option"

definition empty_snapshot :: snapshot where
  "empty_snapshot = \<lparr>s_UID = None, s_AccessToken = None, s_RefreshToken = None,
     s_Scopes = None, s_Environment = None, s_AccountName = None\<rparr>"

definition dict_get :: "'a option option \<Rightarrow> 'a option" where
  \<comment> \<open>\<open>data.get(key, None)\<close>\<close>
  "dict_get v = (case v of None \<Rightarrow> None | Some x \<Rightarrow> x)"

datatype observer_call =
    Acquire nat "string option" snapshot
  | Release nat "string option" snapshot

text \<open>
  The session object.  The fields up to \<open>persistence_observers\<close> are the attributes of
  the class (\<open>can_run_requests\<close> is the \<open>asyncio.Event\<close>: \<open>None\<close> before it is created,
  then set or cleared; a transport, a factory and the GPG handle are only present or
  absent).  The last four fields record what the session did to the outside: the
  requests sent (endpoint and method), the durations slept, the random numbers drawn
  and the calls to the persistence observers.
\<close>

record session =
  appversion :: string
  user_agent :: string
  UID :: "string option"
  AccessToken :: "string option"
  RefreshToken :: "string option"
  Scopes :: "string list option"
  AccountName :: "string option"
  twoFA :: "string option"
  refresh_revision :: int
  gnupg_for_modulus :: bool
  transport :: "unit option"
  transport_factory :: "unit option"
  can_run_requests :: "bool option"
  environment :: "Environment option"
  persistence_observers :: "nat list"
  requests :: "(string \<times> string option) list"
  sleeps :: "real list"
  draws :: nat
  observer_calls :: "observer_call list"

record gpg_result =
  valid :: bool
  fingerprint :: string
  data :: string

text \<open>
  What the session is given by its collaborators, none of them among the sources: the
  answer of the API to the \<open>i\<close>-th request, the \<open>i\<close>-th value of \<open>random.random()\<close>,
  what \<open>Loader.get('environment')()\<close> and \<open>Loader.get('transport')\<close> return, GPG, the
  fingerprint constant, base64 and the SRP engine (as functions of everything the
  \<open>User\<close> object was given).  \<open>int_max_str_digits\<close> is the interpreter's limit on the
  number of digits that \<open>int\<close> converts (\<open>sys.get_int_max_str_digits()\<close>: 4300 unless
  configured, 0 for no limit).
\<close>

record platform =
  server :: "nat \<Rightarrow> transport_result"
  random :: "nat \<Rightarrow> real"
  loader_environment :: "exn + Environment"
  loader_transport :: "exn + unit"
  gpg_decrypt :: "string \<Rightarrow> gpg_result"
  SRP_MODULUS_KEY_FINGERPRINT :: string
  b64decode :: "string \<Rightarrow> exn + string"
  b64encode :: "string \<Rightarrow> string"
  srp_get_challenge :: "string \<Rightarrow> string \<Rightarrow> string"
  srp_process_challenge :: "string \<Rightarrow> string \<Rightarrow> string \<Rightarrow> string \<Rightarrow> int \<Rightarrow> string option"
  srp_authenticated :: "string \<Rightarrow> string \<Rightarrow> string \<Rightarrow> string \<Rightarrow> int \<Rightarrow> string \<Rightarrow> bool"
  int_max_str_digits :: nat

subsection \<open>Sequencing\<close>

text \<open>
  An operation takes the session and returns what it returns or raises, with the
  session it leaves.  \<open>Suspended\<close> is not an exception: the coroutine waits for the
  gate, and in an execution with this coroutine alone nobody opens it.  Nothing catches
  it and no \<open>finally\<close> block runs after it.
\<close>

datatype failure = Raised exn | Suspended

type_synonym 'a outcome = "(failure + 'a) \<times> session"

definition then_do :: "'a outcome \<Rightarrow> ('a \<Rightarrow> session \<Rightarrow> 'b outcome) \<Rightarrow> 'b outcome" where
  "then_do m f = (case m of (Inl x, s) \<Rightarrow> (Inl x, s) | (Inr v, s) \<Rightarrow> f v s)"

definition try_finally :: "'a outcome \<Rightarrow> (session \<Rightarrow> unit outcome) \<Rightarrow> 'a outcome" where
  \<comment> \<open>\<open>try: body finally: handler\<close>: the handler runs after a return and after an
     exception; when it raises itself, that is what leaves the block\<close>
  "try_finally body handler =
     (case body of
        (Inl Suspended, s) \<Rightarrow> (Inl Suspended, s)
      | (r, s) \<Rightarrow> (case handler s of (Inl x, s') \<Rightarrow> (Inl x, s') | (Inr _, s') \<Rightarrow> (r, s')))"

definition subscript :: "string \<Rightarrow> 'a option \<Rightarrow> session \<Rightarrow> 'a outcome" where
  \<comment> \<open>\<open>reply[key]\<close>\<close>
  "subscript key v s = (case v of None \<Rightarrow> (Inl (Raised (KeyError key)), s) | Some x \<Rightarrow> (Inr x, s))"

definition lift :: "exn + 'a \<Rightarrow> session \<Rightarrow> 'a outcome" where
  "lift r s = (case r of Inl x \<Rightarrow> (Inl (Raised x), s) | Inr v \<Rightarrow> (Inr v, s))"

subsection \<open>Properties, snapshots\<close>

definition authenticated :: "session \<Rightarrow> bool" where
  "authenticated s = (UID s \<noteq> None)"

definition needs_twofa :: "session \<Rightarrow> bool" where
  "needs_twofa s = (case Scopes s of None \<Rightarrow> False | Some scopes \<Rightarrow> ''twofactor'' \<in> set scopes)"

definition environment_name :: "Environment \<Rightarrow> exn + string" where
  \<comment> \<open>the property \<open>name\<close> of environments.py\<close>
  "environment_name e =
     (if endswith (env_class e) ''Environment''
      then Inr (lower (take (length (env_class e) - 11) (env_class e)))
      else Inl AssertionError)"

definition environment_getter :: "platform \<Rightarrow> session \<Rightarrow> Environment outcome" where
  "environment_getter P s =
     (case environment s of
        Some e \<Rightarrow> (Inr e, s)
      | None \<Rightarrow>
          (case loader_environment P of
             Inl x \<Rightarrow> (Inl (Raised x), s)
           | Inr e \<Rightarrow> (Inr e, s\<lparr>environment := Some e\<rparr>)))"

definition environment_setter :: "Environment option \<Rightarrow> session \<Rightarrow> unit outcome" where
  "environment_setter newvalue s =
     (if environment s \<noteq> None then (Inl (Raised ValueError), s)
      else (case newvalue of
              None \<Rightarrow> (Inr (), s)
            | Some e \<Rightarrow> (Inr (), s\<lparr>environment := Some e\<rparr>)))"

definition transport_factory_setter :: "platform \<Rightarrow> unit option \<Rightarrow> session \<Rightarrow> unit outcome" where
  "transport_factory_setter P new_transport_factory s =
     (let s1 = s\<lparr>transport := None\<rparr> in
      case new_transport_factory of
        None \<Rightarrow>
          (case loader_transport P of
             Inl x \<Rightarrow> (Inl (Raised x), s1)
           | Inr default_transport \<Rightarrow> (Inr (), s1\<lparr>transport_factory := Some default_transport\<rparr>))
      | Some f \<Rightarrow> (Inr (), s1\<lparr>transport_factory := Some f\<rparr>))"

definition Session_init :: "platform \<Rightarrow> string \<Rightarrow> string \<Rightarrow> unit outcome" where
  "Session_init P appversion' user_agent' =
     transport_factory_setter P None
       \<lparr>appversion = appversion', user_agent = user_agent', UID = None, AccessToken = None,
        RefreshToken = None, Scopes = None, AccountName = None, twoFA = None,
        refresh_revision = 0, gnupg_for_modulus = False, transport = None,
        transport_factory = None, can_run_requests = None, environment = None,
        persistence_observers = [], requests = [], sleeps = [], draws = 0,
        observer_calls = []\<rparr>"

definition register_persistence_observer :: "nat \<Rightarrow> session \<Rightarrow> session" where
  "register_persistence_observer observer s =
     s\<lparr>persistence_observers := persistence_observers s @ [observer]\<rparr>"

definition getstate :: "platform \<Rightarrow> session \<Rightarrow> snapshot outcome" where
  "getstate P s =
     (if UID s = None then (Inr empty_snapshot, s)
      else then_do (environment_getter P s) (\<lambda>e s1.
           then_do (lift (environment_name e) s1) (\<lambda>n s2.
             (Inr \<lparr>s_UID = Some (UID s2), s_AccessToken = Some (AccessToken s2),
                   s_RefreshToken = Some (RefreshToken s2), s_Scopes = Some (Scopes s2),
                   s_Environment = Some (Some n), s_AccountName = Some (AccountName s2)\<rparr>, s2))))"

definition dump :: "platform \<Rightarrow> session \<Rightarrow> snapshot outcome" where
  "dump P s = getstate P s"

text \<open>
  \<open>__setstate__\<close> ends with \<open>Environment.get_environment(...)\<close>.  The class
  \<open>Environment\<close> of environments.py defines \<open>name\<close>, \<open>http_extra_headers\<close>,
  \<open>http_base_url\<close>, \<open>tls_pinning_hashes\<close>, \<open>tls_pinning_hashes_ar\<close> and \<open>__eq__\<close>, and
  nothing else: looking the attribute up raises \<open>AttributeError\<close>.
\<close>

definition Environment_get_environment :: "string option \<Rightarrow> exn + Environment" where
  "Environment_get_environment name = Inl AttributeError"

definition setstate :: "snapshot \<Rightarrow> session \<Rightarrow> unit outcome" where
  "setstate d s =
     (let s1 = s\<lparr>UID := dict_get (s_UID d), AccessToken := dict_get (s_AccessToken d),
                 RefreshToken := dict_get (s_RefreshToken d), Scopes := dict_get (s_Scopes d),
                 AccountName := dict_get (s_AccountName d), transport := None\<rparr>
      in then_do (lift (Environment_get_environment (dict_get (s_Environment d))) s1) (\<lambda>e s2.
           (Inr (), s2\<lparr>environment := Some e\<rparr>)))"

definition load :: "platform \<Rightarrow> snapshot \<Rightarrow> unit outcome" where
  \<comment> \<open>the class method: the session it returns is the state of the outcome\<close>
  "load P d = then_do (Session_init P ''Other'' ''None'') (\<lambda>_ new_obj. setstate d new_obj)"

subsection \<open>The gate\<close>

definition requests_lock :: "platform \<Rightarrow> bool \<Rightarrow> session \<Rightarrow> unit outcome" where
  "requests_lock P no_condition_check s =
     (if no_condition_check then (Inr (), s)
      else (let s1 = s\<lparr>can_run_requests := Some False\<rparr>;
                account_name = AccountName s1
            in then_do (getstate P s1) (\<lambda>session_data s2.
                 (Inr (), s2\<lparr>observer_calls := observer_calls s2
                    @ map (\<lambda>observer. Acquire observer account_name session_data)
                        (persistence_observers s2)\<rparr>))))"

definition requests_unlock :: "platform \<Rightarrow> bool \<Rightarrow> session \<Rightarrow> unit outcome" where
  "requests_unlock P no_condition_check s =
     (if no_condition_check then (Inr (), s)
      else (let s1 = s\<lparr>can_run_requests := Some True\<rparr>;
                account_name = AccountName s1
            in then_do (getstate P s1) (\<lambda>session_data s2.
                 (Inr (), s2\<lparr>observer_calls := observer_calls s2
                    @ map (\<lambda>observer. Release observer account_name session_data)
                        (rev (persistence_observers s2))\<rparr>))))"

definition requests_wait :: "bool \<Rightarrow> session \<Rightarrow> unit outcome" where
  "requests_wait no_condition_check s =
     (if no_condition_check \<or> can_run_requests s = None then (Inr (), s)
      else if can_run_requests s = Some True then (Inr (), s)
      else (Inl Suspended, s))"

subsection \<open>Requests\<close>

definition transport_async_api_request ::
  "platform \<Rightarrow> string \<Rightarrow> string option \<Rightarrow> session \<Rightarrow> api_data outcome" where
  \<comment> \<open>the call of the transport: the request is recorded and the API answers\<close>
  "transport_async_api_request P endpoint method s =
     (let s1 = s\<lparr>requests := requests s @ [(endpoint, method)]\<rparr> in
      case server P (length (requests s)) of
        Reply d \<Rightarrow> (Inr d, s1)
      | Fails e \<Rightarrow> (Inl (Raised (ProtonAPIError e)), s1)
      | Breaks m \<Rightarrow> (Inl (Raised (OtherError m)), s1))"

definition async_api_request_internal ::
  "platform \<Rightarrow> string \<Rightarrow> string option \<Rightarrow> bool \<Rightarrow> session \<Rightarrow> api_data outcome" where
  "async_api_request_internal P endpoint method no_condition_check s =
     (let s1 = (if transport s = None \<and> transport_factory s \<noteq> None
                then s\<lparr>transport := transport_factory s\<rparr> else s)
      in if transport s1 = None then (Inl (Raised (RuntimeError No_transport)), s1)
         else then_do (requests_wait no_condition_check s1) (\<lambda>_ s2.
                transport_async_api_request P endpoint method s2))"

definition int_of_numeric :: "platform \<Rightarrow> string \<Rightarrow> exn + int" where
  \<comment> \<open>\<open>int(v)\<close> for a string of numeric characters, the only strings it is applied to:
     the decimal value when every character is a decimal digit and the digits (leading
     zeros count) are not more than the interpreter's limit, else \<open>ValueError\<close>\<close>
  "int_of_numeric P v =
     (if v \<noteq> [] \<and> list_all is_decimal_char v
         \<and> (int_max_str_digits P = 0 \<or> length v \<le> int_max_str_digits P)
      then Inr (digits_value v) else Inl ValueError)"

definition float_overflow :: int where
  \<comment> \<open>the least integer that does not convert to a float: halfway between the largest
     double and \<open>2 ^ 1024\<close>\<close>
  "float_overflow = 2 ^ 1024 - 2 ^ 970"

definition asyncio_sleep_int :: "int \<Rightarrow> session \<Rightarrow> unit outcome" where
  \<comment> \<open>\<open>asyncio.sleep(delay)\<close> with an integer delay: the event loop adds the delay to
     its clock, a float, and the conversion of the delay raises \<open>OverflowError\<close> when
     the delay is too large\<close>
  "asyncio_sleep_int delay s =
     (if float_overflow \<le> delay then (Inl (Raised OverflowError), s)
      else (Inr (), s\<lparr>sleeps := sleeps s @ [of_int delay]\<rparr>))"

definition sleep_for_exception :: "platform \<Rightarrow> api_error \<Rightarrow> session \<Rightarrow> unit outcome" where
  "sleep_for_exception P e s =
     (if isnumeric (case map_of (http_headers e) ''retry-after'' of None \<Rightarrow> ''-'' | Some v \<Rightarrow> v)
      then then_do (subscript ''retry-after'' (map_of (http_headers e) ''retry-after'') s) (\<lambda>v s1.
           then_do (lift (int_of_numeric P v) s1) (\<lambda>n s2. asyncio_sleep_int n s2))
      else (Inr (), s\<lparr>sleeps := sleeps s @ [3 + random P (draws s) * 5], draws := draws s + 1\<rparr>))"

definition clear_credentials :: "session \<Rightarrow> session" where
  \<comment> \<open>the four assignments of \<open>None\<close> that \<open>async_refresh\<close> and \<open>async_logout\<close> make\<close>
  "clear_credentials s = s\<lparr>UID := None, AccessToken := None, RefreshToken := None, Scopes := None\<rparr>"

fun refresh_loop :: "platform \<Rightarrow> nat \<Rightarrow> session \<Rightarrow> bool option outcome" where
  "refresh_loop P 0 s = (Inr None, s)"
| "refresh_loop P (Suc attempts) s =
     (case async_api_request_internal P ''/auth/refresh'' None True s of
        (Inr refresh_response, s1) \<Rightarrow>
          then_do (subscript ''AccessToken'' (d_AccessToken refresh_response) s1) (\<lambda>a s2.
          then_do (subscript ''RefreshToken'' (d_RefreshToken refresh_response)
                     (s2\<lparr>AccessToken := Some a\<rparr>)) (\<lambda>r s3.
          then_do (subscript ''Scopes'' (d_Scopes refresh_response)
                     (s3\<lparr>RefreshToken := Some r\<rparr>)) (\<lambda>sc s4.
            (Inr (Some True), s4\<lparr>Scopes := Some sc\<rparr>))))
      | (Inl (Raised (ProtonAPIError e)), s1) \<Rightarrow>
          (if http_code e = 409 then refresh_loop P attempts s1
           else if http_code e = 429 \<or> http_code e = 503
           then then_do (sleep_for_exception P e s1) (\<lambda>_ s2. refresh_loop P attempts s2)
           else if http_code e = 400 \<or> http_code e = 422
           then (Inr (Some False), clear_credentials s1)
           else (Inr (Some False), s1))
      | (Inl x, s1) \<Rightarrow> (Inl x, s1))"

definition async_refresh :: "platform \<Rightarrow> int option \<Rightarrow> bool \<Rightarrow> session \<Rightarrow> bool option outcome" where
  "async_refresh P only_when_refresh_revision_is no_condition_check s =
     then_do (requests_lock P no_condition_check s) (\<lambda>_ s1.
       if only_when_refresh_revision_is \<noteq> None \<and> refresh_revision s1 \<noteq> refresh_revision s1
       then then_do (requests_unlock P no_condition_check s1) (\<lambda>_ s2. (Inr (Some True), s2))
       else try_finally (refresh_loop P 3 (s1\<lparr>refresh_revision := refresh_revision s1 + 1\<rparr>))
              (requests_unlock P no_condition_check))"

fun api_request_loop ::
  "platform \<Rightarrow> string \<Rightarrow> string option \<Rightarrow> bool \<Rightarrow> nat \<Rightarrow> session \<Rightarrow> api_data option outcome" where
  "api_request_loop P endpoint method no_condition_check 0 s = (Inr None, s)"
| "api_request_loop P endpoint method no_condition_check (Suc attempts) s =
     (let refresh_revision_at_start = refresh_revision s in
      case async_api_request_internal P endpoint method no_condition_check s of
        (Inr r, s1) \<Rightarrow> (Inr (Some r), s1)
      | (Inl (Raised (ProtonAPIError e)), s1) \<Rightarrow>
          (if http_code e = 403
           then (if needs_twofa s1 then (Inl (Raised (ProtonAPI2FANeeded e)), s1)
                 else (Inl (Raised (ProtonAPIMissingScopeError e)), s1))
           else if http_code e = 401
           then then_do (async_refresh P (Some refresh_revision_at_start) no_condition_check s1)
                  (\<lambda>refreshed s2.
                     if refreshed = Some True
                     then api_request_loop P endpoint method no_condition_check attempts s2
                     else (Inl (Raised (ProtonAPIAuthenticationNeeded e)), s2))
           else if http_code e = 408 \<or> http_code e = 502
           then api_request_loop P endpoint method no_condition_check attempts s1
           else if http_code e = 429 \<or> http_code e = 503
           then then_do (sleep_for_exception P e s1) (\<lambda>_ s2.
                  api_request_loop P endpoint method no_condition_check attempts s2)
           else (Inl (Raised (ProtonAPIError e)), s1))
      | (Inl x, s1) \<Rightarrow> (Inl x, s1))"

definition async_api_request ::
  "platform \<Rightarrow> string \<Rightarrow> string option \<Rightarrow> bool \<Rightarrow> session \<Rightarrow> api_data option outcome" where
  "async_api_request P endpoint method no_condition_check s =
     api_request_loop P endpoint method no_condition_check 3 s"

subsection \<open>Login, second factor, logout, lock\<close>

definition async_logout :: "platform \<Rightarrow> bool \<Rightarrow> session \<Rightarrow> bool option outcome" where
  "async_logout P no_condition_check s =
     (if \<not> authenticated s then (Inr (Some True), s)
      else then_do (requests_lock P no_condition_check s) (\<lambda>_ s1.
             try_finally
               (case async_api_request_internal P ''/auth'' (Some ''DELETE'') True s1 of
                  (Inr ret, s2) \<Rightarrow> (Inr (Some True), clear_credentials s2)
                | (Inl (Raised (ProtonAPIError e)), s2) \<Rightarrow>
                    (if code e \<noteq> 401 then (Inl (Raised (ProtonAPIError e)), s2)
                     else (Inr None, s2))
                | (Inl x, s2) \<Rightarrow> (Inl x, s2))
               (requests_unlock P no_condition_check)))"

definition verify_modulus :: "platform \<Rightarrow> string \<Rightarrow> session \<Rightarrow> string outcome" where
  "verify_modulus P armored_modulus s =
     (let s1 = s\<lparr>gnupg_for_modulus := True\<rparr>;
          verified = gpg_decrypt P armored_modulus
      in if valid verified \<and> lower (fingerprint verified) = SRP_MODULUS_KEY_FINGERPRINT P
         then lift (b64decode P (strip (data verified))) s1
         else (Inl (Raised (ProtonCryptoError ''Invalid modulus'')), s1))"

definition authenticate_body :: "platform \<Rightarrow> string \<Rightarrow> string \<Rightarrow> session \<Rightarrow> bool outcome" where
  \<comment> \<open>the \<open>try\<close> block of \<open>async_authenticate\<close>\<close>
  "authenticate_body P username password s =
     then_do (async_api_request_internal P ''/auth/info'' None True s) (\<lambda>info_response s.
     then_do (subscript ''Modulus'' (d_Modulus info_response) s) (\<lambda>armored s.
     then_do (verify_modulus P armored s) (\<lambda>modulus s.
     then_do (subscript ''ServerEphemeral'' (d_ServerEphemeral info_response) s) (\<lambda>ephemeral s.
     then_do (lift (b64decode P ephemeral) s) (\<lambda>server_challenge s.
     then_do (subscript ''Salt'' (d_Salt info_response) s) (\<lambda>salt64 s.
     then_do (lift (b64decode P salt64) s) (\<lambda>salt s.
     then_do (subscript ''Version'' (d_Version info_response) s) (\<lambda>version s.
       case srp_process_challenge P password modulus salt server_challenge version of
         None \<Rightarrow> (Inl (Raised (ProtonCryptoError ''Invalid challenge'')), s)
       | Some client_proof \<Rightarrow>
     then_do (subscript ''SRPSession'' (d_SRPSession info_response) s) (\<lambda>srp_session s.
       case async_api_request_internal P ''/auth'' None True s of
         (Inl (Raised (ProtonAPIError e)), s) \<Rightarrow>
           (if body_code e = 8002 then (Inr False, s) else (Inl (Raised (ProtonAPIError e)), s))
       | (Inl x, s) \<Rightarrow> (Inl x, s)
       | (Inr auth_response, s) \<Rightarrow>
           (case d_ServerProof auth_response of
              None \<Rightarrow> (Inr False, s)
            | Some proof64 \<Rightarrow>
     then_do (lift (b64decode P proof64) s) (\<lambda>server_proof s.
       if \<not> srp_authenticated P password modulus salt server_challenge version server_proof
       then (Inl (Raised (ProtonCryptoError ''Invalid server proof'')), s)
       else
     then_do (subscript ''UID'' (d_UID auth_response) s) (\<lambda>u s.
     then_do (subscript ''AccessToken'' (d_AccessToken auth_response) (s\<lparr>UID := Some u\<rparr>)) (\<lambda>a s.
     then_do (subscript ''RefreshToken'' (d_RefreshToken auth_response)
                (s\<lparr>AccessToken := Some a\<rparr>)) (\<lambda>r s.
     then_do (subscript ''Scopes'' (d_Scopes auth_response) (s\<lparr>RefreshToken := Some r\<rparr>)) (\<lambda>sc s.
       (Inr True, s\<lparr>Scopes := Some sc, AccountName := Some username,
                     twoFA := d_2FA auth_response\<rparr>))))))))))))))))"

definition async_authenticate ::
  "platform \<Rightarrow> string \<Rightarrow> string \<Rightarrow> bool \<Rightarrow> session \<Rightarrow> bool outcome" where
  "async_authenticate P username password no_condition_check s =
     then_do (requests_lock P no_condition_check s) (\<lambda>_ s1.
     then_do (async_logout P True s1) (\<lambda>_ s2.
       try_finally (authenticate_body P username password s2)
         (requests_unlock P no_condition_check)))"

definition async_provide_2fa :: "platform \<Rightarrow> string \<Rightarrow> bool \<Rightarrow> session \<Rightarrow> bool outcome" where
  "async_provide_2fa P code' no_condition_check s =
     then_do (requests_lock P no_condition_check s) (\<lambda>_ s1.
       try_finally
         (then_do (async_api_request_internal P ''/auth/2fa'' None True s1) (\<lambda>ret s2.
          then_do (subscript ''Scopes'' (d_Scopes ret) s2) (\<lambda>sc s3.
            if d_Code ret = Some 1000
            then (Inr True, s3\<lparr>Scopes := Some sc, twoFA := None\<rparr>)
            else (Inr False, s3\<lparr>Scopes := Some sc\<rparr>))))
         (requests_unlock P no_condition_check))"

definition async_lock :: "platform \<Rightarrow> bool \<Rightarrow> session \<Rightarrow> bool outcome" where
  "async_lock P no_condition_check s =
     then_do (requests_lock P no_condition_check s) (\<lambda>_ s1.
       try_finally
         (then_do (async_api_request_internal P ''/users/lock'' (Some ''PUT'') True s1) (\<lambda>_ s2.
          then_do (async_api_request_internal P ''/auth/scopes'' None True s2) (\<lambda>ret s3.
          then_do (subscript ''Scopes'' (d_Scopes ret) s3) (\<lambda>sc s4.
            (Inr True, s4\<lparr>Scopes := Some sc\<rparr>)))))
         (requests_unlock P no_condition_check))"

section \<open>Example data\<close>

text \<open>
  The registry of the scenario in the specification: type \<open>transport\<close> with \<open>A\<close>
  (priority 10), \<open>B\<close> (priority 5) and \<open>C\<close> (no priority), none with a validation hook.
\<close>

definition transport_A :: "unit plugin_class" where
  "transport_A = \<lparr>qualname = ''plugins.A'', get_priority = Some 10, validate = None\<rparr>"

definition transport_B :: "unit plugin_class" where
  "transport_B = \<lparr>qualname = ''plugins.B'', get_priority = Some 5, validate = None\<rparr>"

definition transport_C :: "unit plugin_class" where
  "transport_C = \<lparr>qualname = ''plugins.C'', get_priority = None, validate = None\<rparr>"

definition example_loader :: "unit Loader" where
  "example_loader =
     set_all Loader_init ''transport''
       [(''A'', transport_A), (''B'', transport_B), (''C'', transport_C)]"

definition exclude_A :: "string \<rightharpoonup> string" where
  "exclude_A = [''PROTON_LOADER_OVERRIDES'' \<mapsto> ''transport=-A'']"

text \<open>
  A platform whose API answers as \<open>srv\<close> says, a session as \<open>__init__\<close> leaves it on
  that platform, and the same session after a login and one refresh.
\<close>

definition prod_environment :: Environment where
  "prod_environment = \<lparr>env_class = ''ProdEnvironment''\<rparr>"

definition example_platform :: "(nat \<Rightarrow> transport_result) \<Rightarrow> platform" where
  "example_platform srv =
     \<lparr>server = srv, random = (\<lambda>i. 1 / 2), loader_environment = Inr prod_environment,
      loader_transport = Inr (),
      gpg_decrypt = (\<lambda>a. \<lparr>valid = True, fingerprint = ''ABCD'', data = a\<rparr>),
      SRP_MODULUS_KEY_FINGERPRINT = ''abcd'', b64decode = Inr, b64encode = (\<lambda>x. x),
      srp_get_challenge = (\<lambda>p m. p @ m),
      srp_process_challenge = (\<lambda>p m s c v. Some p),
      srp_authenticated = (\<lambda>p m s c v x. True), int_max_str_digits = 4300\<rparr>"

definition fresh_session :: session where
  "fresh_session =
     \<lparr>appversion = ''Other'', user_agent = ''None'', UID = None, AccessToken = None,
      RefreshToken = None, Scopes = None, AccountName = None, twoFA = None,
      refresh_revision = 0, gnupg_for_modulus = False, transport = None,
      transport_factory = Some (), can_run_requests = None, environment = None,
      persistence_observers = [], requests = [], sleeps = [], draws = 0,
      observer_calls = []\<rparr>"

definition logged_in :: session where
  "logged_in =
     fresh_session\<lparr>UID := Some ''uid-1'', AccessToken := Some ''access-1'',
       RefreshToken := Some ''refresh-1'', Scopes := Some [''full''],
       AccountName := Some ''alice'', refresh_revision := 1, transport := Some (),
       environment := Some prod_environment\<rparr>"

definition http_error :: "int \<Rightarrow> (string \<times> string) list \<Rightarrow> api_error" where
  "http_error c h = \<lparr>http_code = c, body_code = 0, http_headers = h, code = c\<rparr>"

definition no_data :: api_data where
  "no_data = \<lparr>d_Code = None, d_Modulus = None, d_ServerEphemeral = None, d_Salt = None,
     d_Version = None, d_SRPSession = None, d_ServerProof = None, d_UID = None,
     d_AccessToken = None, d_RefreshToken = None, d_Scopes = None, d_2FA = None\<rparr>"

definition new_tokens :: api_data where
  "new_tokens = no_data\<lparr>d_AccessToken := Some ''access-2'',
     d_RefreshToken := Some ''refresh-2'', d_Scopes := Some [''full'']\<rparr>"

definition forbidden :: "nat \<Rightarrow> transport_result" where
  "forbidden i = Fails (http_error 403 [])"

definition always :: "transport_result \<Rightarrow> nat \<Rightarrow> transport_result" where
  "always r i = r"








section \<open>Properties of the loader\<close>

lemma loader_inv_load_entry_points:
  "loader_inv L \<Longrightarrow> load_entry_points t eps L = (r, L') \<Longrightarrow> loader_inv L'"
proof (induction eps arbitrary: L)
  case Nil
  then show ?case by simp
next
  case (Cons ep eps)
  let ?known = "case known_types L t of None \<Rightarrow> [] | Some d \<Rightarrow> d"
  have dk: "distinct (map fst ?known)"
    using Cons.prems(1) by (auto simp: loader_inv_def split: option.splits)
  show ?case
  proof (cases "ep_name ep \<in> set (map fst ?known)")
    case True
    with Cons.prems have "L' = L\<lparr>known_types := (known_types L)(t := None)\<rparr>"
      by (simp add: Let_def)
    with Cons.prems(1) show ?thesis by (simp add: loader_inv_def)
  next
    case False
    show ?thesis
    proof (cases "ep_load ep")
      case (Inl e)
      show ?thesis
      proof (cases "e = AttributeError")
        case True
        with Inl False Cons.prems(2)
        have run: "load_entry_points t eps (L\<lparr>warned := warned L @ [(t, ep_name ep)]\<rparr>) = (r, L')"
          by (simp add: Let_def)
        have "loader_inv (L\<lparr>warned := warned L @ [(t, ep_name ep)]\<rparr>)"
          using Cons.prems(1) by (simp add: loader_inv_def)
        from Cons.IH[OF this run] show ?thesis .
      next
        case False
        with Inl \<open>ep_name ep \<notin> set (map fst ?known)\<close> Cons.prems(2) have "L' = L"
          by (cases e) (simp_all add: Let_def)
        with Cons.prems(1) show ?thesis by simp
      qed
    next
      case (Inr c)
      let ?L1 = "L\<lparr>known_types := (known_types L)(t \<mapsto> ?known @ [(ep_name ep, c)]),
                   name_resolution_cache := (name_resolution_cache L)(c \<mapsto> (t, ep_name ep))\<rparr>"
      from Inr False Cons.prems(2) have run: "load_entry_points t eps ?L1 = (r, L')"
        by (simp add: Let_def)
      have "loader_inv ?L1"
        using Cons.prems(1) dk False by (auto simp: loader_inv_def)
      from Cons.IH[OF this run] show ?thesis .
    qed
  qed
qed

lemma loader_inv_discover:
  "loader_inv L \<Longrightarrow> discover metadata L t = (r, L') \<Longrightarrow> loader_inv L'"
proof -
  assume inv: "loader_inv L" and d: "discover metadata L t = (r, L')"
  show ?thesis
  proof (cases "known_types L t")
    case None
    have "loader_inv (L\<lparr>known_types := (known_types L)(t \<mapsto> [])\<rparr>)"
      using inv by (simp add: loader_inv_def)
    moreover from d None have "load_entry_points t
             (case proton_entry_point_groups metadata (get_metadata_group_for_typename t) of
                None \<Rightarrow> [] | Some eps \<Rightarrow> eps)
             (L\<lparr>known_types := (known_types L)(t \<mapsto> [])\<rparr>) = (r, L')"
      by (simp add: discover_def)
    ultimately show ?thesis by (rule loader_inv_load_entry_points)
  next
    case (Some a)
    with d inv show ?thesis by (simp add: discover_def)
  qed
qed

lemma sort_reverse_strict:
  assumes "distinct (map class_name xs)"
  shows "sorted_wrt (\<lambda>a b. (priority b, class_name b) < (priority a, class_name a))
           (sort_reverse xs)"
proof -
  let ?k = "\<lambda>e::'a PluggableComponent. (priority e, class_name e)"
  let ?ys = "sort_key ?k (rev xs)"
  from assms have "distinct xs" and "inj_on class_name (set xs)"
    by (simp_all add: distinct_map)
  then have "inj_on ?k (set xs)"
    by (auto simp: inj_on_def)
  with \<open>distinct xs\<close> have "distinct (map ?k ?ys)"
    by (simp add: distinct_map)
  moreover have "sorted (map ?k ?ys)"
    by (rule sorted_sort_key)
  ultimately have "sorted_wrt (<) (map ?k ?ys)"
    by (simp add: strict_sorted_iff)
  then have "sorted_wrt (\<lambda>a b. ?k a < ?k b) ?ys"
    by (simp add: sorted_wrt_map)
  then show ?thesis
    by (simp add: sort_reverse_def sorted_wrt_rev)
qed

lemma set_sort_reverse: "set (sort_reverse xs) = set xs"
  by (simp add: sort_reverse_def)

lemma length_sort_reverse: "length (sort_reverse xs) = length xs"
  by (simp add: sort_reverse_def)

lemma acceptable_classes_None:
  "acceptable_classes None known = Inr classes \<Longrightarrow> known = [] \<and> classes = []"
  by (simp add: acceptable_classes_def split: if_splits)

lemma acceptable_classes_Some:
  "acceptable_classes (Some a) known = Inr classes \<Longrightarrow>
   classes = map (\<lambda>x. (get_priority (snd x), fst x, snd x)) (filter (\<lambda>x. fst x \<in> set a) known)
          @ map (\<lambda>x. (None, fst x, snd x)) (filter (\<lambda>x. fst x \<notin> set a) known)"
  by (auto simp add: acceptable_classes_def split_def)

lemma acceptable_classes_distinct:
  assumes "acceptable_classes acceptable known = Inr classes" and "distinct (map fst known)"
  shows "distinct (map (\<lambda>x. fst (snd x)) classes)"
proof (cases acceptable)
  case None
  with assms(1) show ?thesis by (auto dest: acceptable_classes_None)
next
  case (Some a)
  with assms(1) have "map (\<lambda>x. fst (snd x)) classes =
     map fst (filter (\<lambda>x. fst x \<in> set a) known) @ map fst (filter (\<lambda>x. fst x \<notin> set a) known)"
    by (auto dest!: acceptable_classes_Some simp: comp_def)
  moreover have "distinct (map fst (filter (\<lambda>x. fst x \<in> set a) known)
     @ map fst (filter (\<lambda>x. fst x \<notin> set a) known))"
    using assms(2) by (auto simp: distinct_map_filter)
  ultimately show ?thesis by simp
qed

lemma acceptable_classes_pairs:
  assumes "acceptable_classes acceptable known = Inr classes"
  shows "set (map snd classes) = set known"
proof (cases acceptable)
  case None
  with assms(1) show ?thesis by (auto dest: acceptable_classes_None)
next
  case (Some a)
  with assms(1) have "map snd classes =
     filter (\<lambda>x. fst x \<in> set a) known @ filter (\<lambda>x. fst x \<notin> set a) known"
    by (auto dest!: acceptable_classes_Some simp: comp_def)
  then show ?thesis by auto
qed

lemma acceptable_classes_length:
  assumes "acceptable_classes acceptable known = Inr classes"
  shows "length classes = length known"
proof (cases acceptable)
  case None
  with assms(1) show ?thesis by (auto dest: acceptable_classes_None)
next
  case (Some a)
  have "length (filter (\<lambda>x. fst x \<in> set a) known)
      + length (filter (\<lambda>x. \<not> fst x \<in> set a) known) = length known"
    by (rule sum_length_filter_compl)
  then show ?thesis using Some assms(1)
    by (auto dest!: acceptable_classes_Some)
qed

lemma component_sel:
  "priority (component x) = fst x" "class_name (component x) = fst (snd x)"
  "cls (component x) = snd (snd x)"
  by (simp_all add: component_def split_def)

lemma order_components_shape:
  assumes "order_components t overrides known = Inr res" and "distinct (map fst known)"
  shows "\<exists>ws ns. res = ws @ ns
     \<and> list_all (\<lambda>e. priority e \<noteq> None) ws
     \<and> sorted_wrt (\<lambda>a b. (priority b, class_name b) < (priority a, class_name a)) ws
     \<and> list_all (\<lambda>e. priority e = None) ns"
proof -
  from assms(1) obtain acceptable classes where
    ac: "acceptable_classes acceptable known = Inr classes" and
    res: "res = sort_reverse (map component (filter (\<lambda>x. fst x \<noteq> None) classes))
               @ map component (filter (\<lambda>x. fst x = None) classes)"
    by (auto simp: order_components_def Let_def split_def split: sum.splits)
  let ?ws = "sort_reverse (map component (filter (\<lambda>x. fst x \<noteq> None) classes))"
  let ?ns = "map component (filter (\<lambda>x. fst x = None) classes)"
  have "distinct (map (\<lambda>x. fst (snd x)) (filter (\<lambda>x. fst x \<noteq> None) classes))"
    using acceptable_classes_distinct[OF ac assms(2)] by (rule distinct_map_filter)
  then have "distinct (map class_name (map component (filter (\<lambda>x. fst x \<noteq> None) classes)))"
    by (simp add: comp_def component_sel)
  then have "sorted_wrt (\<lambda>a b. (priority b, class_name b) < (priority a, class_name a)) ?ws"
    by (rule sort_reverse_strict)
  moreover have "list_all (\<lambda>e. priority e \<noteq> None) ?ws"
    by (simp add: list_all_iff set_sort_reverse component_sel)
  moreover have "list_all (\<lambda>e. priority e = None) ?ns"
    by (simp add: list_all_iff component_sel)
  ultimately show ?thesis using res by blast
qed

lemma order_components_all:
  assumes "order_components t overrides known = Inr res"
  shows "set (map (\<lambda>e. (class_name e, cls e)) res) = set known" and "length res = length known"
proof -
  from assms(1) obtain acceptable classes where
    ac: "acceptable_classes acceptable known = Inr classes" and
    res: "res = sort_reverse (map component (filter (\<lambda>x. fst x \<noteq> None) classes))
               @ map component (filter (\<lambda>x. fst x = None) classes)"
    by (auto simp: order_components_def Let_def split_def split: sum.splits)
  have "set (filter (\<lambda>x. fst x \<noteq> None) classes) \<union> set (filter (\<lambda>x. fst x = None) classes)
      = set classes"
    by auto
  moreover have "set res = component ` (set (filter (\<lambda>x. fst x \<noteq> None) classes)
       \<union> set (filter (\<lambda>x. fst x = None) classes))"
    unfolding res by (simp only: set_append set_sort_reverse set_map image_Un)
  ultimately have "set res = component ` set classes"
    by simp
  then have "set (map (\<lambda>e. (class_name e, cls e)) res) = set (map snd classes)"
    by (simp add: image_image component_sel)
  then show "set (map (\<lambda>e. (class_name e, cls e)) res) = set known"
    by (simp only: acceptable_classes_pairs[OF ac])
  have "length res = length (filter (\<lambda>x. fst x \<noteq> None) classes)
     + length (filter (\<lambda>x. \<not> fst x \<noteq> None) classes)"
    unfolding res by (simp add: length_sort_reverse)
  also have "\<dots> = length classes" by (rule sum_length_filter_compl)
  finally show "length res = length known"
    by (simp add: acceptable_classes_length[OF ac])
qed

text \<open>
  Claim C6.  Whenever \<open>get_all\<close> returns a list for a type, the list holds every
  implementation known for the type exactly once; it is a first part of entries with a
  priority, strictly descending in the pair (priority, name), followed by a second part
  of entries without priority.
\<close>

theorem get_all_priority_order:
  assumes inv: "loader_inv L"
    and run: "get_all metadata environ L t = (Inr res, L')"
  shows "\<exists>known ws ns. known_types L' t = Some known
      \<and> set (map (\<lambda>e. (class_name e, cls e)) res) = set known \<and> length res = length known
      \<and> res = ws @ ns
      \<and> list_all (\<lambda>e. priority e \<noteq> None) ws
      \<and> sorted_wrt (\<lambda>a b. (priority b, class_name b) < (priority a, class_name a)) ws
      \<and> list_all (\<lambda>e. priority e = None) ns"
proof -
  from run obtain r known where
    d: "discover metadata L t = (Inr r, L')" and
    k: "known_types L' t = Some known" and
    o: "order_components t (read_overrides environ t) known = Inr res"
    by (auto simp: get_all_def split: prod.splits sum.splits option.splits)
  from inv d have "loader_inv L'" by (rule loader_inv_discover)
  with k have dk: "distinct (map fst known)" by (simp add: loader_inv_def)
  from order_components_shape[OF o dk] order_components_all[OF o] k
  show ?thesis by blast
qed

lemma loader_inv_example: "loader_inv example_loader"
  by (simp add: loader_inv_def example_loader_def set_all_def Loader_init_def)

lemma get_all_example:
  "get_all Map.empty Map.empty example_loader ''transport'' =
     (Inr [\<lparr>priority = Some 10, class_name = ''A'', cls = transport_A\<rparr>,
           \<lparr>priority = Some 5, class_name = ''B'', cls = transport_B\<rparr>,
           \<lparr>priority = None, class_name = ''C'', cls = transport_C\<rparr>], example_loader)"
  by (simp add: get_all_def discover_def example_loader_def set_all_def Loader_init_def
      order_components_def read_overrides_def py_split_def acceptable_entry_points_def
      force_class_def acceptable_classes_def component_def sort_reverse_def
      transport_A_def transport_B_def transport_C_def)

theorem get_all_priority_order_witness:
  "loader_inv example_loader
   \<and> get_all Map.empty Map.empty example_loader ''transport'' =
     (Inr [\<lparr>priority = Some 10, class_name = ''A'', cls = transport_A\<rparr>,
           \<lparr>priority = Some 5, class_name = ''B'', cls = transport_B\<rparr>,
           \<lparr>priority = None, class_name = ''C'', cls = transport_C\<rparr>], example_loader)
   \<and> (\<exists>known ws ns. known_types example_loader ''transport'' = Some known
      \<and> length [\<lparr>priority = Some 10, class_name = ''A'', cls = transport_A\<rparr>,
           \<lparr>priority = Some 5, class_name = ''B'', cls = transport_B\<rparr>,
           \<lparr>priority = None, class_name = ''C'', cls = transport_C\<rparr>] = length known
      \<and> [\<lparr>priority = Some 10, class_name = ''A'', cls = transport_A\<rparr>,
           \<lparr>priority = Some 5, class_name = ''B'', cls = transport_B\<rparr>,
           \<lparr>priority = None, class_name = ''C'', cls = transport_C\<rparr>] = ws @ ns
      \<and> list_all (\<lambda>e. priority e \<noteq> None) ws
      \<and> sorted_wrt (\<lambda>a b. (priority b, class_name b) < (priority a, class_name a)) ws
      \<and> list_all (\<lambda>e. priority e = None) ns)"
  using get_all_priority_order[OF loader_inv_example get_all_example]
    loader_inv_example get_all_example by blast

lemma split_from_no_space:
  "list_all (\<lambda>c. \<not> isspace c) w \<Longrightarrow> x \<in> set (split_from w s) \<Longrightarrow>
     x \<noteq> [] \<and> list_all (\<lambda>c. \<not> isspace c) x"
proof (induction s arbitrary: w)
  case Nil
  then show ?case by (cases "w = []") (simp_all add: list_all_iff)
next
  case (Cons c cs)
  show ?case
  proof (cases "isspace c")
    case False
    with Cons.prems have "list_all (\<lambda>c. \<not> isspace c) (c # w)" and "x \<in> set (split_from (c # w) cs)"
      by simp_all
    then show ?thesis by (rule Cons.IH)
  next
    case True
    have e: "list_all (\<lambda>c. \<not> isspace c) []" by simp
    show ?thesis
    proof (cases "w = []")
      case True
      with \<open>isspace c\<close> Cons.prems(2) have "x \<in> set (split_from [] cs)" by simp
      with e show ?thesis by (rule Cons.IH)
    next
      case False
      with \<open>isspace c\<close> Cons.prems(2) have "x = rev w \<or> x \<in> set (split_from [] cs)" by simp
      then show ?thesis
      proof
        assume "x = rev w"
        with False Cons.prems(1) show ?thesis by (simp add: list_all_iff)
      next
        assume "x \<in> set (split_from [] cs)"
        with e show ?thesis by (rule Cons.IH)
      qed
    qed
  qed
qed

lemma strip_no_space: "list_all (\<lambda>c. \<not> isspace c) x \<Longrightarrow> strip x = x"
proof -
  assume a: "list_all (\<lambda>c. \<not> isspace c) x"
  then have "dropWhile isspace x = x"
    by (cases x) simp_all
  moreover from a have "dropWhile isspace (rev x) = rev x"
    by (cases "rev x") (auto simp: list_all_iff dest: arg_cong[where f=set])
  ultimately show ?thesis by (simp add: strip_def)
qed

lemma strip_py_split: "map strip (py_split v) = py_split v"
proof -
  have "\<forall>x\<in>set (py_split v). strip x = x"
    using split_from_no_space[of "[]" _ v] strip_no_space by (auto simp: py_split_def)
  then show ?thesis by (simp add: map_idI)
qed

lemma exclusion_token_read:
  assumes "environ ''PROTON_LOADER_OVERRIDES'' = Some v" and "(t @ ''=-'' @ n) \<in> set (py_split v)"
  shows "(''-'' @ n) \<in> set (read_overrides environ t)"
proof -
  have "startswith (t @ ''=-'' @ n) (t @ ''='')"
    by (simp add: startswith_def)
  moreover have "drop (length t + 1) (t @ ''=-'' @ n) = ''-'' @ n"
    by simp
  ultimately show ?thesis
    using assms by (force simp: read_overrides_def strip_py_split)
qed

lemma get_loop_named:
  "e \<in> set comps \<Longrightarrow> distinct (map class_name comps) \<Longrightarrow>
     get_loop (Some (class_name e)) vp comps = Some (cls e)"
proof (induction comps)
  case Nil
  then show ?case by simp
next
  case (Cons x xs)
  show ?case
  proof (cases "e = x")
    case True
    then show ?thesis by simp
  next
    case False
    with Cons.prems have in_rest: "e \<in> set xs" and "class_name x \<notin> class_name ` set xs"
      and "distinct (map class_name xs)"
      by simp_all
    then have "class_name x \<noteq> class_name e" by auto
    with Cons.IH[OF in_rest \<open>distinct (map class_name xs)\<close>] show ?thesis by simp
  qed
qed

lemma acceptable_entry_points_excluded:
  assumes "acceptable_entry_points t overrides known = Inr (Some a)"
    and "(''-'' @ n) \<in> set overrides"
  shows "n \<in> set a \<longleftrightarrow> n \<in> set (force_class overrides)"
proof (cases "length (force_class overrides) = 1")
  case True
  then obtain f where f: "force_class overrides = [f]"
    by (cases "force_class overrides") auto
  from assms(1) have "a = [f]"
    unfolding acceptable_entry_points_def Let_def f by (simp split: if_splits)
  with f show ?thesis by simp
next
  case False
  with assms(1) have "\<not> 1 < length (force_class overrides)"
    and af: "a = filter (\<lambda>k. (''-'' @ k) \<notin> set overrides) (map fst known)"
    by (simp_all add: acceptable_entry_points_def Let_def split: if_splits)
  with False have "length (force_class overrides) = 0" by arith
  then have "force_class overrides = []" by simp
  with assms(2) af show ?thesis by simp
qed

lemma order_components_member:
  assumes o: "order_components t overrides known = Inr res"
    and a: "acceptable_entry_points t overrides known = Inr (Some a)"
    and m: "(n, c) \<in> set known"
  shows "\<lparr>priority = (if n \<in> set a then get_priority c else None), class_name = n, cls = c\<rparr>
           \<in> set res"
proof -
  let ?classes = "map (\<lambda>x. (get_priority (snd x), fst x, snd x)) (filter (\<lambda>x. fst x \<in> set a) known)
          @ map (\<lambda>x. (None, fst x, snd x)) (filter (\<lambda>x. fst x \<notin> set a) known)"
  have ac: "acceptable_classes (Some a) known = Inr ?classes"
    by (simp add: acceptable_classes_def split_def)
  from o a ac have res: "res = sort_reverse (map component (filter (\<lambda>x. fst x \<noteq> None) ?classes))
               @ map component (filter (\<lambda>x. fst x = None) ?classes)"
    by (simp add: order_components_def Let_def split_def)
  have "set (filter (\<lambda>x. fst x \<noteq> None) ?classes) \<union> set (filter (\<lambda>x. fst x = None) ?classes)
      = set ?classes"
    by auto
  moreover have "set res = component ` (set (filter (\<lambda>x. fst x \<noteq> None) ?classes)
       \<union> set (filter (\<lambda>x. fst x = None) ?classes))"
    unfolding res by (simp only: set_append set_sort_reverse set_map image_Un)
  ultimately have sr: "set res = component ` set ?classes"
    by simp
  have "((if n \<in> set a then get_priority c else None), n, c) \<in> set ?classes"
    using m by force
  then have "component ((if n \<in> set a then get_priority c else None), n, c) \<in> set res"
    unfolding sr by (rule imageI)
  then show ?thesis by (simp add: component_def)
qed

text \<open>
  Claim C2, as amended.  A name excluded by a token \<open>TYPE=-NAME\<close> of the override
  string and known for the type is still listed by \<open>get_all\<close>: without priority, unless
  the same name is also forced.  \<open>get\<close> with that class name returns its implementation.
\<close>

theorem excluded_name_listed_and_reachable:
  assumes inv: "loader_inv L"
    and env: "environ ''PROTON_LOADER_OVERRIDES'' = Some v"
    and token: "(t @ ''=-'' @ n) \<in> set (py_split v)"
    and run: "get_all metadata environ L t = (Inr res, L')"
    and known: "known_types L' t = Some known"
    and member: "(n, c) \<in> set known"
  shows "\<lparr>priority = (if n \<in> set (force_class (read_overrides environ t))
                       then get_priority c else None),
          class_name = n, cls = c\<rparr> \<in> set res
       \<and> get metadata environ L t (Some n) vp = (Inr c, L')"
proof -
  let ?ov = "read_overrides environ t"
  from run known obtain r where
    d: "discover metadata L t = (Inr r, L')" and
    o: "order_components t ?ov known = Inr res"
    by (auto simp: get_all_def split: prod.splits sum.splits option.splits)
  from inv d have "loader_inv L'" by (rule loader_inv_discover)
  with known have dk: "distinct (map fst known)" by (simp add: loader_inv_def)
  have ex: "(''-'' @ n) \<in> set ?ov"
    using env token by (rule exclusion_token_read)
  from member have ne: "known \<noteq> []" by auto
  from o ne obtain a where a: "acceptable_entry_points t ?ov known = Inr (Some a)"
    by (cases "acceptable_entry_points t ?ov known")
       (auto simp: order_components_def acceptable_classes_def split: option.splits)
  let ?e = "\<lparr>priority = (if n \<in> set (force_class ?ov) then get_priority c else None),
             class_name = n, cls = c\<rparr>"
  from order_components_member[OF o a member] acceptable_entry_points_excluded[OF a ex]
  have mem: "?e \<in> set res" by simp
  have pairs: "set (map (\<lambda>e. (class_name e, cls e)) res) = set known"
    and len: "length res = length known"
    using order_components_all[OF o] by simp_all
  from dk have "distinct known" and inj: "inj_on fst (set known)"
    by (simp_all add: distinct_map)
  have "card (set (map (\<lambda>e. (class_name e, cls e)) res)) = length (map (\<lambda>e. (class_name e, cls e)) res)"
    using pairs len \<open>distinct known\<close> by (simp add: distinct_card)
  then have "distinct (map (\<lambda>e. (class_name e, cls e)) res)"
    by (rule card_distinct)
  then have "distinct res" and "inj_on (\<lambda>e. (class_name e, cls e)) (set res)"
    by (simp_all add: distinct_map)
  moreover from inj pairs have "inj_on fst ((\<lambda>e. (class_name e, cls e)) ` set res)"
    by simp
  ultimately have "distinct res" and "inj_on (fst \<circ> (\<lambda>e. (class_name e, cls e))) (set res)"
    by (simp_all add: comp_inj_on)
  then have "distinct (map (fst \<circ> (\<lambda>e. (class_name e, cls e))) res)"
    by (simp add: distinct_map)
  then have "distinct (map class_name res)"
    by (simp add: comp_def)
  from get_loop_named[OF mem this, of vp] have "get_loop (Some n) vp res = Some c"
    by simp
  with run have "get metadata environ L t (Some n) vp = (Inr c, L')"
    by (simp add: get_def)
  with mem show ?thesis by simp
qed

lemma get_all_exclude_A:
  "get_all Map.empty exclude_A example_loader ''transport'' =
     (Inr [\<lparr>priority = Some 5, class_name = ''B'', cls = transport_B\<rparr>,
           \<lparr>priority = None, class_name = ''C'', cls = transport_C\<rparr>,
           \<lparr>priority = None, class_name = ''A'', cls = transport_A\<rparr>], example_loader)"
  by (simp add: get_all_def discover_def example_loader_def set_all_def Loader_init_def
      order_components_def read_overrides_def py_split_def strip_def isspace_def startswith_def
      acceptable_entry_points_def exclude_A_def
      force_class_def acceptable_classes_def component_def sort_reverse_def
      transport_A_def transport_B_def transport_C_def)

text \<open>
  Claim C2 as stated fails: with \<open>transport=-A\<close> the name \<open>A\<close> is in the list that
  \<open>get_all\<close> returns, and \<open>get\<close> with class name \<open>A\<close> returns the class.
\<close>

theorem excluded_name_counterexample:
  "''A'' \<in> set (map class_name
       [\<lparr>priority = Some 5, class_name = ''B'', cls = transport_B\<rparr>,
        \<lparr>priority = None, class_name = ''C'', cls = transport_C\<rparr>,
        \<lparr>priority = None, class_name = ''A'', cls = transport_A\<rparr>])
   \<and> get_all Map.empty exclude_A example_loader ''transport'' =
     (Inr [\<lparr>priority = Some 5, class_name = ''B'', cls = transport_B\<rparr>,
           \<lparr>priority = None, class_name = ''C'', cls = transport_C\<rparr>,
           \<lparr>priority = None, class_name = ''A'', cls = transport_A\<rparr>], example_loader)
   \<and> get Map.empty exclude_A example_loader ''transport'' (Some ''A'') None
       = (Inr transport_A, example_loader)"
  using get_all_exclude_A by (simp add: get_def)

theorem excluded_name_listed_and_reachable_witness:
  "loader_inv example_loader
   \<and> exclude_A ''PROTON_LOADER_OVERRIDES'' = Some ''transport=-A''
   \<and> (''transport'' @ ''=-'' @ ''A'') \<in> set (py_split ''transport=-A'')
   \<and> known_types example_loader ''transport''
        = Some [(''A'', transport_A), (''B'', transport_B), (''C'', transport_C)]
   \<and> \<lparr>priority = (if ''A'' \<in> set (force_class (read_overrides exclude_A ''transport''))
                       then get_priority transport_A else None),
          class_name = ''A'', cls = transport_A\<rparr>
        \<in> set [\<lparr>priority = Some 5, class_name = ''B'', cls = transport_B\<rparr>,
           \<lparr>priority = None, class_name = ''C'', cls = transport_C\<rparr>,
           \<lparr>priority = None, class_name = ''A'', cls = transport_A\<rparr>]
   \<and> get Map.empty exclude_A example_loader ''transport'' (Some ''A'') (Some ())
       = (Inr transport_A, example_loader)"
proof -
  have inv: "loader_inv example_loader"
    by (rule loader_inv_example)
  have env: "exclude_A ''PROTON_LOADER_OVERRIDES'' = Some ''transport=-A''"
    by (simp add: exclude_A_def)
  have token: "(''transport'' @ ''=-'' @ ''A'') \<in> set (py_split ''transport=-A'')"
    by (simp add: py_split_def isspace_def)
  have known: "known_types example_loader ''transport''
        = Some [(''A'', transport_A), (''B'', transport_B), (''C'', transport_C)]"
    by (simp add: example_loader_def set_all_def Loader_init_def)
  have member: "(''A'', transport_A) \<in> set [(''A'', transport_A), (''B'', transport_B), (''C'', transport_C)]"
    by simp
  from excluded_name_listed_and_reachable[OF inv env token get_all_exclude_A known member, of "Some ()"]
  show ?thesis using inv env token known by simp
qed

section \<open>Properties of the session\<close>

text \<open>The definitions that a run on the example data unfolds.\<close>

lemmas run_defs = async_api_request_internal_def requests_wait_def then_do_def try_finally_def
  transport_async_api_request_def example_platform_def always_def logged_in_def
  fresh_session_def requests_lock_def requests_unlock_def getstate_def environment_getter_def
  environment_name_def lift_def subscript_def endswith_def lower_def lower_char_def
  prod_environment_def http_error_def new_tokens_def no_data_def clear_credentials_def
  authenticated_def




lemma requests_unlock_not_suspended:
  "requests_unlock P ncc s \<noteq> (Inl Suspended, s')"
  by (auto simp: requests_unlock_def getstate_def environment_getter_def then_do_def lift_def Let_def
      split: sum.splits option.splits if_splits)

text \<open>What one call of the transport layer does to the session.\<close>

lemma internal_cases:
  assumes "async_api_request_internal P ep m ncc s = (r, s')"
  obtains
    (no_transport) "r = Inl (Raised (RuntimeError No_transport))" "s' = s"
  | (suspended) "r = Inl Suspended" "\<exists>T. s' = s\<lparr>transport := T\<rparr>"
  | (reply) d where "r = Inr d" "server P (length (requests s)) = Reply d"
      "\<exists>T. s' = s\<lparr>transport := T, requests := requests s @ [(ep, m)]\<rparr>"
  | (fails) e where "r = Inl (Raised (ProtonAPIError e))" "server P (length (requests s)) = Fails e"
      "\<exists>T. s' = s\<lparr>transport := T, requests := requests s @ [(ep, m)]\<rparr>"
  | (breaks) msg where "r = Inl (Raised (OtherError msg))" "server P (length (requests s)) = Breaks msg"
      "\<exists>T. s' = s\<lparr>transport := T, requests := requests s @ [(ep, m)]\<rparr>"
proof -
  let ?s1 = "if transport s = None \<and> transport_factory s \<noteq> None
                then s\<lparr>transport := transport_factory s\<rparr> else s"
  have s1: "?s1 = s\<lparr>transport := transport ?s1\<rparr>" by simp
  show ?thesis
  proof (cases "transport ?s1 = None")
    case True
    then have "transport s = None" "transport_factory s = None"
      by (cases "transport_factory s"; simp split: if_splits)+
    with assms have "r = Inl (Raised (RuntimeError No_transport))" "s' = s"
      by (simp_all add: async_api_request_internal_def)
    then show ?thesis by (rule no_transport)
  next
    case False
    show ?thesis
    proof (cases "ncc \<or> can_run_requests s \<noteq> Some False")
      case wait: False
      with False assms have "r = Inl Suspended" "s' = ?s1"
        by (auto simp: async_api_request_internal_def requests_wait_def then_do_def Let_def
            split: if_splits)
      with s1 have "r = Inl Suspended" "\<exists>T. s' = s\<lparr>transport := T\<rparr>" by metis+
      then show ?thesis by (rule suspended)
    next
      case wait: True
      then have w: "requests_wait ncc ?s1 = (Inr (), ?s1)"
        by (cases "can_run_requests s") (auto simp: requests_wait_def)
      with False assms have t: "transport_async_api_request P ep m ?s1 = (r, s')"
        by (simp add: async_api_request_internal_def then_do_def Let_def)
      have rq: "requests ?s1 = requests s" by simp
      have upd: "?s1\<lparr>requests := requests s @ [(ep, m)]\<rparr>
         = s\<lparr>transport := transport ?s1, requests := requests s @ [(ep, m)]\<rparr>"
        by simp
      show ?thesis
      proof (cases "server P (length (requests s))")
        case (Reply d)
        with t rq have "r = Inr d" "s' = ?s1\<lparr>requests := requests s @ [(ep, m)]\<rparr>"
          by (auto simp: transport_async_api_request_def Let_def)
        with upd have "r = Inr d" "\<exists>T. s' = s\<lparr>transport := T, requests := requests s @ [(ep, m)]\<rparr>"
          by metis+
        with Reply show ?thesis using reply by blast
      next
        case (Fails e)
        with t rq have "r = Inl (Raised (ProtonAPIError e))" "s' = ?s1\<lparr>requests := requests s @ [(ep, m)]\<rparr>"
          by (auto simp: transport_async_api_request_def Let_def)
        with upd have "r = Inl (Raised (ProtonAPIError e))"
          "\<exists>T. s' = s\<lparr>transport := T, requests := requests s @ [(ep, m)]\<rparr>"
          by metis+
        with Fails show ?thesis using fails by blast
      next
        case (Breaks msg)
        with t rq have "r = Inl (Raised (OtherError msg))" "s' = ?s1\<lparr>requests := requests s @ [(ep, m)]\<rparr>"
          by (auto simp: transport_async_api_request_def Let_def)
        with upd have "r = Inl (Raised (OtherError msg))"
          "\<exists>T. s' = s\<lparr>transport := T, requests := requests s @ [(ep, m)]\<rparr>"
          by metis+
        with Breaks show ?thesis using breaks by blast
      qed
    qed
  qed
qed

text \<open>
  Claim C7.  When an attempt of a generic call fails with HTTP status 403, the call
  raises at once, after that one request and with no retry: \<open>ProtonAPI2FANeeded\<close>
  when the session needs a second factor (its scopes contain \<open>twofactor\<close>), and
  \<open>ProtonAPIMissingScopeError\<close> otherwise.
\<close>

theorem forbidden_fails_immediately:
  assumes fail: "async_api_request_internal P endpoint method ncc s
                   = (Inl (Raised (ProtonAPIError e)), s1)"
    and code: "http_code e = 403"
  shows "api_request_loop P endpoint method ncc (Suc attempts) s =
           (Inl (Raised (if needs_twofa s then ProtonAPI2FANeeded e
                         else ProtonAPIMissingScopeError e)), s1)
       \<and> async_api_request P endpoint method ncc s =
           (Inl (Raised (if needs_twofa s then ProtonAPI2FANeeded e
                         else ProtonAPIMissingScopeError e)), s1)
       \<and> requests s1 = requests s @ [(endpoint, method)]"
proof -
  from fail have "(\<exists>T. s1 = s\<lparr>transport := T, requests := requests s @ [(endpoint, method)]\<rparr>)"
    by (cases rule: internal_cases) auto
  then have same: "needs_twofa s1 = needs_twofa s"
    and sent: "requests s1 = requests s @ [(endpoint, method)]"
    by (auto simp: needs_twofa_def)
  have loop: "api_request_loop P endpoint method ncc (Suc n) s =
           (Inl (Raised (if needs_twofa s then ProtonAPI2FANeeded e
                         else ProtonAPIMissingScopeError e)), s1)" for n
    using fail code same by simp
  from loop[of attempts] loop[of 2] sent show ?thesis
    by (simp add: async_api_request_def numeral_3_eq_3)
qed

theorem forbidden_fails_immediately_witness:
  "async_api_request (example_platform forbidden) ''/vpn'' None False logged_in
     = (Inl (Raised (ProtonAPIMissingScopeError (http_error 403 []))),
        logged_in\<lparr>requests := [(''/vpn'', None)]\<rparr>)
   \<and> async_api_request (example_platform forbidden) ''/vpn'' None False
        (logged_in\<lparr>Scopes := Some [''twofactor'']\<rparr>)
     = (Inl (Raised (ProtonAPI2FANeeded (http_error 403 []))),
        logged_in\<lparr>Scopes := Some [''twofactor''], requests := [(''/vpn'', None)]\<rparr>)"
proof -
  have a: "async_api_request_internal (example_platform forbidden) ''/vpn'' None False s
     = (Inl (Raised (ProtonAPIError (http_error 403 []))), s\<lparr>requests := [(''/vpn'', None)]\<rparr>)"
    if "s = logged_in \<or> s = logged_in\<lparr>Scopes := Some [''twofactor'']\<rparr>" for s
    using that
    by (auto simp: async_api_request_internal_def requests_wait_def then_do_def
        transport_async_api_request_def example_platform_def forbidden_def logged_in_def
        fresh_session_def)
  have c: "http_code (http_error 403 []) = 403" by (simp add: http_error_def)
  have n1: "\<not> needs_twofa logged_in"
    by (simp add: needs_twofa_def logged_in_def fresh_session_def)
  have n2: "needs_twofa (logged_in\<lparr>Scopes := Some [''twofactor'']\<rparr>)"
    by (simp add: needs_twofa_def)
  from forbidden_fails_immediately[OF a c, of logged_in 2]
       forbidden_fails_immediately[OF a c, of "logged_in\<lparr>Scopes := Some [''twofactor'']\<rparr>" 2]
       n1 n2
  show ?thesis by simp
qed

lemma async_refresh_snapshot_unused:
  "async_refresh P (Some observed) ncc s = async_refresh P None ncc s"
  by (simp add: async_refresh_def)

text \<open>
  Claim C1 (the code does otherwise).  The session has been refreshed once (revision 1)
  and \<open>refresh\<close> is called with the revision 0 that the caller observed earlier.  The
  call is not a no-op: it sends a refresh request, installs the tokens of the reply and
  moves the revision on to 2.
\<close>

theorem refresh_with_stale_revision:
  "async_refresh (example_platform (always (Reply new_tokens))) (Some 0) False logged_in
     = (Inr (Some True),
        logged_in\<lparr>AccessToken := Some ''access-2'', RefreshToken := Some ''refresh-2'',
          refresh_revision := 2, can_run_requests := Some True,
          requests := [(''/auth/refresh'', None)]\<rparr>)"
  by (simp add: async_refresh_def numeral_3_eq_3 run_defs)

text \<open>
  Claim C4 (the code does otherwise).  An authenticated session logs out and the API
  answers the session-delete call with 401.  The error is ignored, but the function then
  ends without a return value and the credentials stay as they were.
\<close>

theorem logout_ignored_401:
  "async_logout (example_platform (always (Fails (http_error 401 [])))) False logged_in
     = (Inr None,
        logged_in\<lparr>can_run_requests := Some True, requests := [(''/auth'', Some ''DELETE'')]\<rparr>)
   \<and> UID (snd (async_logout (example_platform (always (Fails (http_error 401 []))))
                   False logged_in)) = Some ''uid-1''"
  by (simp add: async_logout_def run_defs)

lemma logout_unauthenticated:
  "UID s = None \<Longrightarrow> async_logout P ncc s = (Inr (Some True), s)"
  by (simp add: async_logout_def authenticated_def)

lemma decimal_is_numeric: "is_decimal_char c \<Longrightarrow> is_numeric_char c"
  by (simp add: is_decimal_char_def is_numeric_char_def Let_def)

lemma sleep_decimal_header:
  assumes "map_of (http_headers e) ''retry-after'' = Some v"
    and "v \<noteq> []" and "list_all is_decimal_char v"
    and "int_max_str_digits P = 0 \<or> length v \<le> int_max_str_digits P"
    and "digits_value v < float_overflow"
  shows "sleep_for_exception P e s = (Inr (), s\<lparr>sleeps := sleeps s @ [of_int (digits_value v)]\<rparr>)"
proof -
  from assms(2,3) have "isnumeric v"
    by (auto simp: isnumeric_def list_all_iff decimal_is_numeric)
  with assms show ?thesis
    by (simp add: sleep_for_exception_def subscript_def then_do_def lift_def int_of_numeric_def
        asyncio_sleep_int_def)
qed

text \<open>
  A header of decimal digits that \<open>int\<close> refuses for its length, or whose value does
  not convert to a float, ends the wait with an exception: nothing is waited.
\<close>

lemma sleep_header_too_long:
  assumes "map_of (http_headers e) ''retry-after'' = Some v"
    and "isnumeric v"
    and "int_max_str_digits P \<noteq> 0" and "int_max_str_digits P < length v"
  shows "sleep_for_exception P e s = (Inl (Raised ValueError), s)"
  using assms
  by (simp add: sleep_for_exception_def subscript_def then_do_def lift_def int_of_numeric_def)

lemma sleep_header_overflow:
  assumes "map_of (http_headers e) ''retry-after'' = Some v"
    and "v \<noteq> []" and "list_all is_decimal_char v"
    and "int_max_str_digits P = 0 \<or> length v \<le> int_max_str_digits P"
    and "float_overflow \<le> digits_value v"
  shows "sleep_for_exception P e s = (Inl (Raised OverflowError), s)"
proof -
  from assms(2,3) have "isnumeric v"
    by (auto simp: isnumeric_def list_all_iff decimal_is_numeric)
  with assms show ?thesis
    by (simp add: sleep_for_exception_def subscript_def then_do_def lift_def int_of_numeric_def
        asyncio_sleep_int_def)
qed

lemma small_delay: "delay < 2 ^ 64 \<Longrightarrow> delay < float_overflow"
  by (simp add: float_overflow_def)

lemma sleep_retry_after_5:
  "sleep_for_exception P (http_error 429 [(''retry-after'', ''5'')]) s
     = (Inr (), s\<lparr>sleeps := sleeps s @ [5]\<rparr>)"
proof -
  have "int_max_str_digits P = 0 \<or> length ''5'' \<le> int_max_str_digits P" by auto
  moreover have "digits_value ''5'' = 5" by (simp add: digits_value_def)
  moreover have "(5::int) < float_overflow" by (rule small_delay) simp
  ultimately show ?thesis
    using sleep_decimal_header[of "http_error 429 [(''retry-after'', ''5'')]" "''5''" P s]
    by (simp add: http_error_def is_decimal_char_def)
qed

lemma sleep_random:
  assumes "\<not> isnumeric (case map_of (http_headers e) ''retry-after'' of None \<Rightarrow> ''-'' | Some v \<Rightarrow> v)"
  shows "sleep_for_exception P e s
     = (Inr (), s\<lparr>sleeps := sleeps s @ [3 + random P (draws s) * 5], draws := draws s + 1\<rparr>)"
  using assms by (simp add: sleep_for_exception_def)

lemma sleep_random_missing_header:
  assumes "map_of (http_headers e) ''retry-after'' = None"
    and "0 \<le> random P (draws s)" and "random P (draws s) < 1"
  shows "\<exists>d. sleep_for_exception P e s = (Inr (), s\<lparr>sleeps := sleeps s @ [d], draws := draws s + 1\<rparr>)
     \<and> 3 \<le> d \<and> d < 8"
proof -
  have "\<not> isnumeric ''-''"
    by (simp add: isnumeric_def is_numeric_char_def)
  with assms(1) have "sleep_for_exception P e s
     = (Inr (), s\<lparr>sleeps := sleeps s @ [3 + random P (draws s) * 5], draws := draws s + 1\<rparr>)"
    by (simp add: sleep_for_exception_def)
  moreover from assms(2,3) have "3 \<le> 3 + random P (draws s) * 5 \<and> 3 + random P (draws s) * 5 < 8"
    by simp
  ultimately show ?thesis by blast
qed

text \<open>
  Claim C8 (the code does otherwise).  A 429 answer carries \<open>retry-after\<close> with the one
  character SUPERSCRIPT TWO (code point 178).  \<open>isnumeric\<close> accepts it, \<open>int\<close> does
  not: no wait takes place, neither the header's value nor one from 3 to 8, and the call
  ends with \<open>ValueError\<close> after its first attempt.
\<close>

theorem sleep_superscript_header:
  "sleep_for_exception P (http_error 429 [(''retry-after'', [CHR 0xB2])]) s
     = (Inl (Raised ValueError), s)
   \<and> async_api_request
        (example_platform (always (Fails (http_error 429 [(''retry-after'', [CHR 0xB2])]))))
        ''/vpn'' None False logged_in
     = (Inl (Raised ValueError), logged_in\<lparr>requests := [(''/vpn'', None)]\<rparr>)"
proof -
  have a: "sleep_for_exception P (http_error 429 [(''retry-after'', [CHR 0xB2])]) s
     = (Inl (Raised ValueError), s)" for P s
    by (simp add: sleep_for_exception_def http_error_def isnumeric_def is_numeric_char_def
        subscript_def then_do_def lift_def int_of_numeric_def is_decimal_char_def)
  have c: "http_code (http_error 429 [(''retry-after'', [CHR 0xB2])]) = 429"
    by (simp add: http_error_def)
  have "api_request_loop
        (example_platform (always (Fails (http_error 429 [(''retry-after'', [CHR 0xB2])]))))
        ''/vpn'' None False (Suc 2) logged_in
     = (Inl (Raised ValueError), logged_in\<lparr>requests := [(''/vpn'', None)]\<rparr>)"
    unfolding api_request_loop.simps Let_def
    by (simp add: a c async_api_request_internal_def requests_wait_def
        transport_async_api_request_def example_platform_def always_def logged_in_def
        fresh_session_def then_do_def)
  with a show ?thesis by (simp add: async_api_request_def numeral_3_eq_3)
qed

lemma setstate_raises: "fst (setstate d s) = Inl (Raised AttributeError)"
  by (simp add: setstate_def then_do_def lift_def Environment_get_environment_def Let_def)

lemma load_never_returns: "fst (load P d) \<noteq> Inr ()"
proof (cases "Session_init P ''Other'' ''None''")
  case (Pair r s)
  show ?thesis
  proof (cases r)
    case (Inl x)
    with Pair show ?thesis by (simp add: load_def then_do_def)
  next
    case (Inr u)
    with Pair have "load P d = setstate d s" by (simp add: load_def then_do_def)
    then show ?thesis using setstate_raises[of d s] by simp
  qed
qed

lemma dump_empty_iff:
  assumes "dump P s = (Inr d, s')"
  shows "d = empty_snapshot \<longleftrightarrow> UID s = None"
proof (cases "UID s = None")
  case True
  with assms show ?thesis by (simp add: dump_def getstate_def)
next
  case False
  with assms have "s_UID d \<noteq> None"
    by (auto simp: dump_def getstate_def then_do_def lift_def split: prod.splits sum.splits)
  with False show ?thesis by (auto simp: empty_snapshot_def)
qed

lemma char_of_112: "char_of (112 :: nat) = CHR ''p''"
  by code_simp

text \<open>
  Claim C9 (the code does otherwise).  The snapshot of an authenticated session has the
  six keys, but restoring it into a fresh session does not return: \<open>__setstate__\<close>
  raises \<open>AttributeError\<close> at its last statement, before the environment is assigned.
\<close>

theorem load_of_dump:
  "dump (example_platform srv) logged_in
     = (Inr \<lparr>s_UID = Some (Some ''uid-1''), s_AccessToken = Some (Some ''access-1''),
             s_RefreshToken = Some (Some ''refresh-1''), s_Scopes = Some (Some [''full'']),
             s_Environment = Some (Some ''prod''), s_AccountName = Some (Some ''alice'')\<rparr>,
        logged_in)
   \<and> load (example_platform srv)
        \<lparr>s_UID = Some (Some ''uid-1''), s_AccessToken = Some (Some ''access-1''),
         s_RefreshToken = Some (Some ''refresh-1''), s_Scopes = Some (Some [''full'']),
         s_Environment = Some (Some ''prod''), s_AccountName = Some (Some ''alice'')\<rparr>
     = (Inl (Raised AttributeError),
        fresh_session\<lparr>UID := Some ''uid-1'', AccessToken := Some ''access-1'',
          RefreshToken := Some ''refresh-1'', Scopes := Some [''full''],
          AccountName := Some ''alice''\<rparr>)"
  by (simp add: dump_def load_def setstate_def Session_init_def transport_factory_setter_def
      dict_get_def Environment_get_environment_def char_of_112 run_defs)







lemma sleep_frame:
  "sleep_for_exception P e s = (r, s') \<Longrightarrow> \<exists>S D. s' = s\<lparr>sleeps := S, draws := D\<rparr>"
proof -
  assume a: "sleep_for_exception P e s = (r, s')"
  have triv: "s = s\<lparr>sleeps := sleeps s, draws := draws s\<rparr>" by simp
  show ?thesis
  proof (cases "isnumeric (case map_of (http_headers e) ''retry-after'' of None \<Rightarrow> ''-'' | Some v \<Rightarrow> v)")
    case False
    with a have "s' = s\<lparr>sleeps := sleeps s @ [3 + random P (draws s) * 5], draws := draws s + 1\<rparr>"
      by (simp add: sleep_for_exception_def)
    then show ?thesis by blast
  next
    case True
    show ?thesis
    proof (cases "map_of (http_headers e) ''retry-after''")
      case None
      with a True have "s' = s"
        by (simp add: sleep_for_exception_def subscript_def then_do_def)
      with triv show ?thesis by metis
    next
      case (Some v)
      show ?thesis
      proof (cases "int_of_numeric P v")
        case (Inl x)
        with a True Some have "s' = s"
          by (simp add: sleep_for_exception_def subscript_def then_do_def lift_def)
        with triv show ?thesis by metis
      next
        case (Inr n)
        with a True Some have "s' = s \<or> s' = s\<lparr>sleeps := sleeps s @ [of_int n]\<rparr>"
          by (auto simp: sleep_for_exception_def subscript_def then_do_def lift_def
              asyncio_sleep_int_def split: if_splits)
        then have "s' = s\<lparr>sleeps := sleeps s, draws := draws s\<rparr>
           \<or> s' = s\<lparr>sleeps := sleeps s @ [of_int n], draws := draws s\<rparr>" by simp
        then show ?thesis by blast
      qed
    qed
  qed
qed

lemma refresh_loop_Suc_cases:
  assumes run: "refresh_loop P (Suc n) s = (r, s')"
  obtains
    (raised) x s1 where
      "async_api_request_internal P ''/auth/refresh'' None True s = (Inl x, s1)"
      "r = Inl x" "s' = s1" "\<nexists>e. x = Raised (ProtonAPIError e)"
  | (reply) d s1 where
      "async_api_request_internal P ''/auth/refresh'' None True s = (Inr d, s1)"
      "\<exists>A R S. s' = s1\<lparr>AccessToken := A, RefreshToken := R, Scopes := S\<rparr>"
  | (conflict) e s1 where
      "async_api_request_internal P ''/auth/refresh'' None True s
         = (Inl (Raised (ProtonAPIError e)), s1)"
      "http_code e = 409" "refresh_loop P n s1 = (r, s')"
  | (jailed_raised) e s1 x where
      "async_api_request_internal P ''/auth/refresh'' None True s
         = (Inl (Raised (ProtonAPIError e)), s1)"
      "sleep_for_exception P e s1 = (Inl x, s')" "r = Inl x"
      "http_code e = 429 \<or> http_code e = 503"
  | (jailed) e s1 s2 where
      "async_api_request_internal P ''/auth/refresh'' None True s
         = (Inl (Raised (ProtonAPIError e)), s1)"
      "http_code e = 429 \<or> http_code e = 503"
      "sleep_for_exception P e s1 = (Inr (), s2)" "refresh_loop P n s2 = (r, s')"
  | (terminal) e s1 where
      "async_api_request_internal P ''/auth/refresh'' None True s
         = (Inl (Raised (ProtonAPIError e)), s1)"
      "http_code e = 400 \<or> http_code e = 422"
      "r = Inr (Some False)" "s' = clear_credentials s1"
  | (other) e s1 where
      "async_api_request_internal P ''/auth/refresh'' None True s
         = (Inl (Raised (ProtonAPIError e)), s1)"
      "http_code e \<noteq> 400" "http_code e \<noteq> 422"
      "r = Inr (Some False)" "s' = s1"
proof -
  obtain r1 s1 where i: "async_api_request_internal P ''/auth/refresh'' None True s = (r1, s1)"
    by (cases "async_api_request_internal P ''/auth/refresh'' None True s")
  show ?thesis
  proof (cases r1)
    case (Inr d)
    have triv: "s1 = s1\<lparr>AccessToken := AccessToken s1, RefreshToken := RefreshToken s1,
        Scopes := Scopes s1\<rparr>" by simp
    have "\<exists>A R S. s' = s1\<lparr>AccessToken := A, RefreshToken := R, Scopes := S\<rparr>"
    proof (cases "d_AccessToken d")
      case None
      with run i Inr have "s' = s1" by (simp add: subscript_def then_do_def)
      with triv show ?thesis by metis
    next
      case a: (Some a)
      show ?thesis
      proof (cases "d_RefreshToken d")
        case None
        with run i Inr a have "s' = s1\<lparr>AccessToken := Some a\<rparr>"
          by (simp add: subscript_def then_do_def)
        then have "s' = s1\<lparr>AccessToken := Some a, RefreshToken := RefreshToken s1,
          Scopes := Scopes s1\<rparr>" by simp
        then show ?thesis by blast
      next
        case b: (Some b)
        show ?thesis
        proof (cases "d_Scopes d")
          case None
          with run i Inr a b have "s' = s1\<lparr>AccessToken := Some a, RefreshToken := Some b\<rparr>"
            by (simp add: subscript_def then_do_def)
          then have "s' = s1\<lparr>AccessToken := Some a, RefreshToken := Some b,
            Scopes := Scopes s1\<rparr>" by simp
          then show ?thesis by blast
        next
          case (Some c)
          with run i Inr a b have "s' = s1\<lparr>AccessToken := Some a, RefreshToken := Some b,
            Scopes := Some c\<rparr>"
            by (simp add: subscript_def then_do_def)
          then show ?thesis by blast
        qed
      qed
    qed
    with i Inr show ?thesis using reply by blast
  next
    case (Inl x)
    show ?thesis
    proof (cases "\<exists>e. x = Raised (ProtonAPIError e)")
      case False
      with run i Inl have "r = Inl x" "s' = s1"
        by (cases x; (simp; fail)?; rename_tac y; case_tac y; simp)+
      with i Inl False show ?thesis using raised by blast
    next
      case True
      then obtain e where x: "x = Raised (ProtonAPIError e)" by blast
      note i' = i[unfolded Inl x]
      show ?thesis
      proof (cases "http_code e = 409")
        case True
        with run i' have "refresh_loop P n s1 = (r, s')" by simp
        with i' True show ?thesis using conflict by blast
      next
        case n409: False
        show ?thesis
        proof (cases "http_code e = 429 \<or> http_code e = 503")
          case True
          obtain r2 s2 where sl: "sleep_for_exception P e s1 = (r2, s2)"
            by (cases "sleep_for_exception P e s1")
          show ?thesis
          proof (cases r2)
            case (Inl y)
            with run i' n409 True sl have "r = Inl y" "s' = s2"
              by (auto simp: then_do_def)
            with i' sl Inl True show ?thesis using jailed_raised by blast
          next
            case (Inr u)
            with run i' n409 True sl have "refresh_loop P n s2 = (r, s')"
              by (auto simp: then_do_def)
            with i' sl Inr True show ?thesis using jailed by auto
          qed
        next
          case njail: False
          show ?thesis
          proof (cases "http_code e = 400 \<or> http_code e = 422")
            case True
            with run i' n409 njail have "r = Inr (Some False)" "s' = clear_credentials s1"
              by auto
            with i' True show ?thesis using terminal by blast
          next
            case False
            with run i' n409 njail have "r = Inr (Some False)" "s' = s1"
              by auto
            with i' False show ?thesis using other by blast
          qed
        qed
      qed
    qed
  qed
qed



text \<open>The requests sent only grow, and a request that fails was answered by \<open>Fails\<close>.\<close>

lemma internal_fails_sent:
  assumes "async_api_request_internal P ep m ncc s = (Inl (Raised (ProtonAPIError e)), s')"
  shows "requests s' = requests s @ [(ep, m)]" and "server P (length (requests s)) = Fails e"
  using assms by (cases rule: internal_cases; auto)+

lemma internal_reply_sent:
  assumes "async_api_request_internal P ep m ncc s = (Inr d, s')"
  shows "requests s' = requests s @ [(ep, m)]" and "server P (length (requests s)) = Reply d"
  using assms by (cases rule: internal_cases; auto)+

lemma refresh_loop_requests:
  "refresh_loop P n s = (r, s') \<Longrightarrow> \<exists>sent. requests s' = requests s @ sent"
proof (induction n arbitrary: s)
  case 0
  then show ?case by simp
next
  case (Suc n)
  from Suc.prems show ?case
  proof (cases rule: refresh_loop_Suc_cases)
    case (raised x s1)
    from raised(1) have "requests s1 = requests s \<or> requests s1 = requests s @ [(''/auth/refresh'', None)]"
      by (cases rule: internal_cases) auto
    with raised show ?thesis by auto
  next
    case (reply d s1)
    with internal_reply_sent(1)[OF reply(1)] show ?thesis by auto
  next
    case (conflict e s1)
    with internal_fails_sent(1)[OF conflict(1)] Suc.IH[OF conflict(3)] show ?thesis by auto
  next
    case (jailed_raised e s1 x)
    with internal_fails_sent(1)[OF jailed_raised(1)] sleep_frame[OF jailed_raised(2)]
    show ?thesis by auto
  next
    case (jailed e s1 s2)
    with internal_fails_sent(1)[OF jailed(1)] sleep_frame[OF jailed(3)] Suc.IH[OF jailed(4)]
    show ?thesis by auto
  next
    case (terminal e s1)
    with internal_fails_sent(1)[OF terminal(1)] show ?thesis by (auto simp: clear_credentials_def)
  next
    case (other e s1)
    with internal_fails_sent(1)[OF other(1)] show ?thesis by auto
  qed
qed








end
